theory Spec2Isabelle
  imports Main "HOL-Library.AList" "HOL-Library.Word"
begin

section \<open>Go values used by \<^verbatim>\<open>lxd/network/driver_common.go\<close>\<close>

text \<open>
  A Go \<^verbatim>\<open>map[string]string\<close> is a reference to a table with distinct keys. The table is
  an association list; the order of the list is the order in which a \<^verbatim>\<open>range\<close>
  statement visits the table. Go leaves that order unspecified, and no function of the
  source ranges twice over one table, so a theorem about every list covers every order.
  A map variable holds a reference: \<open>None\<close> is the nil map, \<open>Some a\<close> the table at
  address \<open>a\<close> of the store. The store is the list of the tables allocated so far, so
  \<^verbatim>\<open>make(map[string]string)\<close> appends an empty table and returns its index.
\<close>

type_synonym gomap = "(string \<times> string) list"
type_synonym ref = "nat option"
type_synonym heap = "gomap list"

definition deref :: "heap \<Rightarrow> ref \<Rightarrow> gomap" where
  "deref h r = (case r of None \<Rightarrow> [] | Some a \<Rightarrow> if a < length h then h ! a else [])"

text \<open>\<^verbatim>\<open>m[k]\<close>: the value stored under \<open>k\<close>, the empty string when the key is absent.\<close>

definition index :: "gomap \<Rightarrow> string \<Rightarrow> string" where
  "index m k = (case map_of m k of None \<Rightarrow> [] | Some v \<Rightarrow> v)"

definition make_map :: "heap \<Rightarrow> nat \<times> heap" where
  "make_map h = (length h, h @ [[]])"

text \<open>\<^verbatim>\<open>m[k] = v\<close> on the table at address \<open>a\<close>.\<close>

definition assign :: "heap \<Rightarrow> nat \<Rightarrow> string \<Rightarrow> string \<Rightarrow> heap" where
  "assign h a k v = (if a < length h then h[a := AList.update k v (h ! a)] else h)"

text \<open>The invariants Go keeps by construction: keys are distinct, references are live.\<close>

definition wf_map :: "gomap \<Rightarrow> bool" where
  "wf_map m = distinct (map fst m)"

definition ref_ok :: "heap \<Rightarrow> ref \<Rightarrow> bool" where
  "ref_ok h r = (case r of None \<Rightarrow> True | Some a \<Rightarrow> a < length h)"

text \<open>\<^verbatim>\<open>strings.HasPrefix\<close> and \<^verbatim>\<open>shared.StringInSlice\<close>.\<close>

definition HasPrefix :: "string \<Rightarrow> string \<Rightarrow> bool" where
  "HasPrefix s p = (take (length p) s = p)"

definition StringInSlice :: "string \<Rightarrow> string list \<Rightarrow> bool" where
  "StringInSlice k xs = (k \<in> set xs)"

section \<open>The network entity\<close>

text \<open>\<^verbatim>\<open>api.NetworkPut\<close>: the fields the source reads.\<close>

record NetworkPut =
  Description :: string
  Config :: ref

text \<open>
  \<^verbatim>\<open>common\<close>. The logger is its context (driver, network); \<open>state\<close> is the pointer
  to the daemon state, an opaque handle here: what the code reaches through it (cluster
  database, notifier, file system) is the environment parameter of each operation.
\<close>

record common =
  logger :: "(string \<times> string) list"
  state :: nat
  id' :: "64 word"
  name :: string
  netType :: string
  description :: string
  config :: ref
  status :: string



section \<open>Errors and collaborator calls\<close>

text \<open>
  \<open>Err\<close> is an error of a collaborator, \<open>InvalidValue nm k e\<close> is
  \<^verbatim>\<open>errors.Wrapf(e, "Invalid value for network %q option %q", nm, k)\<close> and
  \<open>InvalidOption nm k\<close> is \<^verbatim>\<open>fmt.Errorf("Invalid option for network %q option %q", nm, k)\<close>.
\<close>

datatype error =
    Err string
  | InvalidValue string string error
  | InvalidOption string string

text \<open>The calls an operation makes on its collaborators, in the order it makes them.\<close>

datatype call =
    CallNewNotifier
  | CallClientUpdateNetwork string string NetworkPut string
  | CallClusterUpdateNetwork string string ref
  | CallClusterRenameNetwork string string
  | CallClusterDeleteNetwork string
  | CallRemoveAll string
  | CallRename string string

text \<open>
  The collaborators of \<^verbatim>\<open>update\<close> and \<^verbatim>\<open>delete\<close>, none of them in the source file:
  \<open>NodeSpecificNetworkConfig\<close> is the list \<^verbatim>\<open>db.NodeSpecificNetworkConfig\<close>;
  \<open>NewNotifier\<close> is the result of \<^verbatim>\<open>cluster.NewNotifier\<close>, an error or the peers the
  notifier reaches; \<open>ClientUpdateNetwork\<close> is the answer of a peer to
  \<^verbatim>\<open>client.UpdateNetwork(name, put, etag)\<close>, given the description and the table it
  receives; \<open>ClusterUpdateNetwork\<close> and \<open>ClusterDeleteNetwork\<close> are the results of the
  database calls.
\<close>

record env =
  NodeSpecificNetworkConfig :: "string list"
  NewNotifier :: "error + string list"
  ClientUpdateNetwork :: "string \<Rightarrow> string \<Rightarrow> string \<Rightarrow> gomap \<Rightarrow> string \<Rightarrow> error option"
  ClusterUpdateNetwork :: "string \<Rightarrow> string \<Rightarrow> gomap \<Rightarrow> error option"
  ClusterDeleteNetwork :: "string \<Rightarrow> error option"

text \<open>
  Modelled from the spec: the notifier that \<^verbatim>\<open>cluster.NewNotifier\<close> returns is not in
  the source file. The spec: "\<^verbatim>\<open>notifier(fn)\<close> invokes \<^verbatim>\<open>fn\<close> once per other cluster member,
  surfacing the first error."
\<close>

definition notifier :: "string list \<Rightarrow> (string \<Rightarrow> error option) \<Rightarrow> error option" where
  "notifier peers hook = (case List.map_filter hook peers of [] \<Rightarrow> None | e # _ \<Rightarrow> Some e)"

section \<open>update\<close>

text \<open>
  The loop of \<^verbatim>\<open>update\<close> that fills \<^verbatim>\<open>sendNetwork.Config\<close> (the table at \<open>a\<close>) from the
  pairs of \<^verbatim>\<open>applyNetwork.Config\<close>.
\<close>

fun forward_keys :: "string list \<Rightarrow> gomap \<Rightarrow> nat \<Rightarrow> heap \<Rightarrow> heap" where
  "forward_keys nodeSpecific [] a h = h"
| "forward_keys nodeSpecific ((k, v) # kvs) a h =
     (if StringInSlice k nodeSpecific then forward_keys nodeSpecific kvs a h
      else forward_keys nodeSpecific kvs a (assign h a k v))"

text \<open>
  The block under \<^verbatim>\<open>if targetNode == ""\<close>: the error it returns early with, if any,
  the payload, the store and the calls made.
\<close>

definition notify_all :: "env \<Rightarrow> heap \<Rightarrow> common \<Rightarrow> NetworkPut \<Rightarrow> error option \<times> heap \<times> call list" where
  "notify_all e h n applyNetwork =
     (case NewNotifier e of
        Inl err \<Rightarrow> (Some err, h, [CallNewNotifier])
      | Inr peers \<Rightarrow>
          (let (a, h1) = make_map h;
               sendNetwork = applyNetwork\<lparr>Config := Some a\<rparr>;
               h2 = forward_keys (NodeSpecificNetworkConfig e) (deref h1 (Config applyNetwork)) a h1;
               hook = (\<lambda>client. ClientUpdateNetwork e client (name n) (Description sendNetwork)
                                   (deref h2 (Config sendNetwork)) []);
               calls = CallNewNotifier #
                       map (\<lambda>client. CallClientUpdateNetwork client (name n) sendNetwork []) peers
           in (notifier peers hook, h2, calls)))"

text \<open>
  \<^verbatim>\<open>update\<close> returns its error, the entity, the store and the calls it made.
\<close>

definition update :: "env \<Rightarrow> heap \<Rightarrow> common \<Rightarrow> NetworkPut \<Rightarrow> string \<Rightarrow> bool
    \<Rightarrow> error option \<times> common \<times> heap \<times> call list" where
  "update e h n applyNetwork targetNode clusterNotification =
     (let n1 = n\<lparr>description := Description applyNetwork, config := Config applyNetwork\<rparr> in
      if \<not> clusterNotification then
        (let (early, h1, calls1) =
               (if targetNode = [] then notify_all e h n1 applyNetwork else (None, h, []))
         in case early of
              Some err \<Rightarrow> (Some err, n1, h1, calls1)
            | None \<Rightarrow>
                (ClusterUpdateNetwork e (name n1) (Description applyNetwork)
                     (deref h1 (Config applyNetwork)),
                 n1, h1,
                 calls1 @ [CallClusterUpdateNetwork (name n1) (Description applyNetwork)
                             (Config applyNetwork)]))
      else (None, n1, h, []))"

section \<open>validate\<close>

text \<open>
  A validator is a Go \<^verbatim>\<open>func(string) error\<close>, \<open>None\<close> being nil; a rule set is a
  \<^verbatim>\<open>map[string]func(string) error\<close>, a table like the others.
\<close>

type_synonym validator = "string \<Rightarrow> error option"
type_synonym rules = "(string \<times> validator) list"

definition validationRules :: "common \<Rightarrow> rules" where
  "validationRules n = []"

text \<open>
  The loop merging the driver's rules into the common ones. The merged table lists its
  keys in the order of merging, and the next loop ranges over it in that order; the
  common rules being empty, every order of the merged table is the order of merging of
  some order of the driver's rules.
\<close>

fun merge_rules :: "rules \<Rightarrow> rules \<Rightarrow> rules" where
  "merge_rules [] rules = rules"
| "merge_rules ((field, validator) # driverRules) rules =
     merge_rules driverRules (AList.update field validator rules)"

text \<open>
  The loop running each validator: the error it returns with, or the set
  \<^verbatim>\<open>checkedFields\<close> once every rule has passed.
\<close>

fun run_validators :: "string \<Rightarrow> gomap \<Rightarrow> rules \<Rightarrow> string set \<Rightarrow> error + string set" where
  "run_validators nm conf [] checkedFields = Inr checkedFields"
| "run_validators nm conf ((k, validator) # rules) checkedFields =
     (let checkedFields' = insert k checkedFields in
      case validator (index conf k) of
        Some err \<Rightarrow> Inl (InvalidValue nm k err)
      | None \<Rightarrow> run_validators nm conf rules checkedFields')"

text \<open>The loop looking for a field that no rule checked.\<close>

fun unchecked_fields :: "string \<Rightarrow> string set \<Rightarrow> gomap \<Rightarrow> error option" where
  "unchecked_fields nm checkedFields [] = None"
| "unchecked_fields nm checkedFields ((k, v) # conf) =
     (if k \<in> checkedFields then unchecked_fields nm checkedFields conf
      else if HasPrefix k ''user.'' then unchecked_fields nm checkedFields conf
      else Some (InvalidOption nm k))"

definition validate :: "common \<Rightarrow> gomap \<Rightarrow> rules \<Rightarrow> error option" where
  "validate n conf driverRules =
     (let rules = merge_rules driverRules (validationRules n) in
      case run_validators (name n) conf rules {} of
        Inl err \<Rightarrow> Some err
      | Inr checkedFields \<Rightarrow> unchecked_fields (name n) checkedFields conf)"

text \<open>
  The effective rule set in the spec's words: the common rules merged with the driver's
  rules, the driver's entry winning where both have the key.
\<close>

definition effective_rules :: "common \<Rightarrow> rules \<Rightarrow> (string \<rightharpoonup> validator)" where
  "effective_rules n driverRules = map_of (validationRules n) ++ map_of driverRules"

section \<open>DHCP ranges\<close>

text \<open>
  \<^verbatim>\<open>net.IP\<close> is a byte slice, nil being the empty list. \<^verbatim>\<open>net.ParseIP\<close>, \<^verbatim>\<open>IP.To4\<close>
  and \<^verbatim>\<open>IP.To16\<close> belong to Go's standard library and are parameters.
\<close>

type_synonym IP = "8 word list"

record DHCPRange =
  Start :: IP
  End :: IP

record netpkg =
  ParseIP :: "string \<Rightarrow> IP"
  To4 :: "IP \<Rightarrow> IP"
  To16 :: "IP \<Rightarrow> IP"

text \<open>
  \<^verbatim>\<open>strings.Split(s, sep)\<close> and \<^verbatim>\<open>strings.SplitN(s, sep, n)\<close> for a separator of one
  byte and \<open>n \<ge> 0\<close>: \<open>Split\<close> cuts at every separator, \<open>SplitN\<close> returns at most
  \<open>n\<close> pieces, the last one being the rest of the string, uncut.
\<close>

fun Split :: "string \<Rightarrow> char \<Rightarrow> string list" where
  "Split [] sep = [[]]"
| "Split (c # cs) sep =
     (if c = sep then [] # Split cs sep
      else (case Split cs sep of [] \<Rightarrow> [[c]] | x # xs \<Rightarrow> (c # x) # xs))"

fun SplitN :: "string \<Rightarrow> char \<Rightarrow> nat \<Rightarrow> string list" where
  "SplitN s sep 0 = []"
| "SplitN s sep (Suc 0) = [s]"
| "SplitN s sep (Suc (Suc n)) =
     (if sep \<in> set s
      then takeWhile (\<lambda>c. c \<noteq> sep) s # SplitN (tl (dropWhile (\<lambda>c. c \<noteq> sep) s)) sep (Suc n)
      else [s])"

text \<open>
  \<^verbatim>\<open>strings.TrimSpace\<close> removes the leading and the trailing white space of a string,
  rune by rune, white space being the runes of \<^verbatim>\<open>unicode.IsSpace\<close>: U+0009 to U+000D,
  U+0020, U+0085, U+00A0, U+1680, U+2000 to U+200A, U+2028, U+2029, U+202F, U+205F and
  U+3000. A string is its bytes, so \<open>whiteSpace\<close> lists the UTF-8 encodings of these
  runes. Go decodes a rune at the front (or at the back) of a string as a white space
  rune exactly when the string starts (or ends) with the encoding of that rune: the
  encodings are the shortest forms, the only ones the decoder accepts, and a byte that
  starts no valid encoding decodes as U+FFFD, which is no white space.
\<close>

definition whiteSpace :: "string list" where
  "whiteSpace =
     [[CHR 0x09], [CHR 0x0A], [CHR 0x0B], [CHR 0x0C], [CHR 0x0D], [CHR 0x20],
      [CHR 0xC2, CHR 0x85], [CHR 0xC2, CHR 0xA0],
      [CHR 0xE1, CHR 0x9A, CHR 0x80],
      [CHR 0xE2, CHR 0x80, CHR 0x80], [CHR 0xE2, CHR 0x80, CHR 0x81],
      [CHR 0xE2, CHR 0x80, CHR 0x82], [CHR 0xE2, CHR 0x80, CHR 0x83],
      [CHR 0xE2, CHR 0x80, CHR 0x84], [CHR 0xE2, CHR 0x80, CHR 0x85],
      [CHR 0xE2, CHR 0x80, CHR 0x86], [CHR 0xE2, CHR 0x80, CHR 0x87],
      [CHR 0xE2, CHR 0x80, CHR 0x88], [CHR 0xE2, CHR 0x80, CHR 0x89],
      [CHR 0xE2, CHR 0x80, CHR 0x8A],
      [CHR 0xE2, CHR 0x80, CHR 0xA8], [CHR 0xE2, CHR 0x80, CHR 0xA9],
      [CHR 0xE2, CHR 0x80, CHR 0xAF],
      [CHR 0xE2, CHR 0x81, CHR 0x9F],
      [CHR 0xE3, CHR 0x80, CHR 0x80]]"

text \<open>
  \<^verbatim>\<open>strings.TrimLeftFunc\<close> for a set of runes given by their encodings \<open>es\<close>: as long
  as the string starts with one of the encodings, that rune is cut off.
\<close>

function TrimLeftFunc :: "string list \<Rightarrow> string \<Rightarrow> string" where
  "TrimLeftFunc es s =
     (case find (\<lambda>e. e \<noteq> [] \<and> take (length e) s = e) es of
        None \<Rightarrow> s
      | Some e \<Rightarrow> TrimLeftFunc es (drop (length e) s))"
  by pat_completeness auto
termination
proof (relation "measure (\<lambda>(es, s). length s)")
  show "wf (measure (\<lambda>(es, s). length s))" by simp
next
  fix es :: "string list" and s e :: string
  assume "find (\<lambda>e. e \<noteq> [] \<and> take (length e) s = e) es = Some e"
  then have e: "e \<noteq> []" "take (length e) s = e" by (auto simp: find_Some_iff)
  from e(2) have "length (take (length e) s) = length e" by simp
  then have "length e \<le> length s" by simp
  with e(1) show "((es, drop (length e) s), (es, s)) \<in> measure (\<lambda>(es, s). length s)"
    by (cases e) auto
qed

declare TrimLeftFunc.simps [simp del]

text \<open>
  \<^verbatim>\<open>strings.TrimRightFunc\<close> cuts the runes off the end: the same on the reversed
  string, with the encodings reversed.
\<close>

definition TrimRightFunc :: "string list \<Rightarrow> string \<Rightarrow> string" where
  "TrimRightFunc es s = rev (TrimLeftFunc (map rev es) (rev s))"

definition TrimSpace :: "string \<Rightarrow> string" where
  "TrimSpace s = TrimRightFunc whiteSpace (TrimLeftFunc whiteSpace s)"

text \<open>The loop of \<^verbatim>\<open>DHCPv4Ranges\<close> over the comma-separated entries.\<close>

fun ranges_v4 :: "netpkg \<Rightarrow> string list \<Rightarrow> DHCPRange list \<Rightarrow> DHCPRange list" where
  "ranges_v4 net [] dhcpRanges = dhcpRanges"
| "ranges_v4 net (r # rs) dhcpRanges =
     (let parts = SplitN (TrimSpace r) CHR ''-'' 2 in
      if length parts = 2 then
        (let startIP = ParseIP net (parts ! 0);
             endIP = ParseIP net (parts ! 1)
         in ranges_v4 net rs (dhcpRanges @ [\<lparr>Start = To4 net startIP, End = To4 net endIP\<rparr>]))
      else ranges_v4 net rs dhcpRanges)"

definition DHCPv4Ranges :: "netpkg \<Rightarrow> heap \<Rightarrow> common \<Rightarrow> DHCPRange list" where
  "DHCPv4Ranges net h n =
     (let dhcpRanges = [] in
      if index (deref h (config n)) ''ipv4.dhcp.ranges'' \<noteq> []
      then ranges_v4 net (Split (index (deref h (config n)) ''ipv4.dhcp.ranges'') CHR '','') dhcpRanges
      else dhcpRanges)"

text \<open>The loop of \<^verbatim>\<open>DHCPv6Ranges\<close>.\<close>

fun ranges_v6 :: "netpkg \<Rightarrow> string list \<Rightarrow> DHCPRange list \<Rightarrow> DHCPRange list" where
  "ranges_v6 net [] dhcpRanges = dhcpRanges"
| "ranges_v6 net (r # rs) dhcpRanges =
     (let parts = SplitN (TrimSpace r) CHR ''-'' 2 in
      if length parts = 2 then
        (let startIP = ParseIP net (parts ! 0);
             endIP = ParseIP net (parts ! 1)
         in ranges_v6 net rs (dhcpRanges @ [\<lparr>Start = To16 net startIP, End = To16 net endIP\<rparr>]))
      else ranges_v6 net rs dhcpRanges)"

definition DHCPv6Ranges :: "netpkg \<Rightarrow> heap \<Rightarrow> common \<Rightarrow> DHCPRange list" where
  "DHCPv6Ranges net h n =
     (let dhcpRanges = [] in
      if index (deref h (config n)) ''ipv6.dhcp.ranges'' \<noteq> []
      then ranges_v6 net (Split (index (deref h (config n)) ''ipv6.dhcp.ranges'') CHR '','') dhcpRanges
      else dhcpRanges)"

section \<open>IsUsed\<close>

text \<open>
  The collaborators of \<^verbatim>\<open>IsUsed\<close>, none of them in the source file, over any type \<open>'i\<close> of
  instances and \<open>'p\<close> of profiles: \<open>LoadFromAllProjects\<close> is the result of
  \<^verbatim>\<open>instance.LoadFromAllProjects\<close>; \<open>GetProfiles\<close> is the result of the transaction
  that calls \<^verbatim>\<open>tx.GetProfiles(db.ProfileFilter{})\<close>, its error or the profiles;
  \<open>IsInUseByInstance\<close> and \<open>IsInUseByProfile\<close> are the two predicates (the second one after
  \<^verbatim>\<open>db.ProfileToAPI\<close>), each returning an error or its answer.
\<close>

record ('i, 'p) usage_env =
  LoadFromAllProjects :: "error + 'i list"
  IsInUseByInstance :: "'i \<Rightarrow> string \<Rightarrow> error + bool"
  GetProfiles :: "error + 'p list"
  IsInUseByProfile :: "'p \<Rightarrow> string \<Rightarrow> error + bool"

datatype ('i, 'p) usage_call =
    CallLoadFromAllProjects
  | CallIsInUseByInstance 'i string
  | CallGetProfiles
  | CallIsInUseByProfile 'p string

text \<open>
  Both loops of \<^verbatim>\<open>IsUsed\<close> have one shape: ask the predicate for each element in
  turn, return \<^verbatim>\<open>(false, err)\<close> at the first error and \<^verbatim>\<open>(true, nil)\<close> at the first
  hit. The result is what the loop returns with, \<open>None\<close> when it runs to its end, and the
  calls made.
\<close>

fun scan :: "('a \<Rightarrow> error + bool) \<Rightarrow> ('a \<Rightarrow> 'c) \<Rightarrow> 'a list
    \<Rightarrow> (bool \<times> error option) option \<times> 'c list" where
  "scan inUseBy called [] = (None, [])"
| "scan inUseBy called (x # xs) =
     (case inUseBy x of
        Inl err \<Rightarrow> (Some (False, Some err), [called x])
      | Inr inUse \<Rightarrow>
          if inUse then (Some (True, None), [called x])
          else (case scan inUseBy called xs of (r, calls) \<Rightarrow> (r, called x # calls)))"

definition IsUsed :: "('i, 'p) usage_env \<Rightarrow> common
    \<Rightarrow> (bool \<times> error option) \<times> ('i, 'p) usage_call list" where
  "IsUsed e n =
     (case LoadFromAllProjects e of
        Inl err \<Rightarrow> ((False, Some err), [CallLoadFromAllProjects])
      | Inr insts \<Rightarrow>
          (case scan (\<lambda>inst. IsInUseByInstance e inst (name n))
                     (\<lambda>inst. CallIsInUseByInstance inst (name n)) insts of
             (Some r, calls1) \<Rightarrow> (r, CallLoadFromAllProjects # calls1)
           | (None, calls1) \<Rightarrow>
               (case GetProfiles e of
                  Inl err \<Rightarrow>
                    ((False, Some err), CallLoadFromAllProjects # calls1 @ [CallGetProfiles])
                | Inr profiles \<Rightarrow>
                    (case scan (\<lambda>profile. IsInUseByProfile e profile (name n))
                               (\<lambda>profile. CallIsInUseByProfile profile (name n)) profiles of
                       (Some r, calls2) \<Rightarrow>
                         (r, CallLoadFromAllProjects # calls1 @ CallGetProfiles # calls2)
                     | (None, calls2) \<Rightarrow>
                         ((False, None),
                          CallLoadFromAllProjects # calls1 @ CallGetProfiles # calls2)))))"

text \<open>The error, if any, that a call returns in the environment.\<close>

fun call_error :: "('i, 'p) usage_env \<Rightarrow> ('i, 'p) usage_call \<Rightarrow> error option" where
  "call_error e CallLoadFromAllProjects =
     (case LoadFromAllProjects e of Inl err \<Rightarrow> Some err | Inr _ \<Rightarrow> None)"
| "call_error e (CallIsInUseByInstance inst nm) =
     (case IsInUseByInstance e inst nm of Inl err \<Rightarrow> Some err | Inr _ \<Rightarrow> None)"
| "call_error e CallGetProfiles =
     (case GetProfiles e of Inl err \<Rightarrow> Some err | Inr _ \<Rightarrow> None)"
| "call_error e (CallIsInUseByProfile profile nm) =
     (case IsInUseByProfile e profile nm of Inl err \<Rightarrow> Some err | Inr _ \<Rightarrow> None)"

section \<open>rename and delete\<close>




section \<open>configChanged\<close>

text \<open>
  Modelled from the spec: \<^verbatim>\<open>shared.DeepCopy\<close> is not in the source file. The spec: "deep copy
  of the map; mutation-isolation between snapshot and live state is required". The copy
  either fails with the error given, leaving the destination as it is, or stores the
  pairs of the source table in the destination table at \<open>dst\<close>.
\<close>

definition DeepCopy :: "error option \<Rightarrow> heap \<Rightarrow> ref \<Rightarrow> nat \<Rightarrow> error option \<times> heap" where
  "DeepCopy failure h src dst =
     (case failure of
        Some err \<Rightarrow> (Some err, h)
      | None \<Rightarrow> (None, h[dst := deref h src]))"

text \<open>
  Either loop of \<^verbatim>\<open>configChanged\<close>: it ranges over one table and compares with
  the value the other table has for the key, carrying \<^verbatim>\<open>dbUpdateNeeded\<close> and
  \<^verbatim>\<open>changedKeys\<close>.
\<close>

fun diff_keys :: "gomap \<Rightarrow> gomap \<Rightarrow> bool \<times> string list \<Rightarrow> bool \<times> string list" where
  "diff_keys [] other (dbUpdateNeeded, changedKeys) = (dbUpdateNeeded, changedKeys)"
| "diff_keys ((k, v) # kvs) other (dbUpdateNeeded, changedKeys) =
     (if v \<noteq> index other k then
        diff_keys kvs other
          (True,
           if \<not> HasPrefix k ''user.'' \<and> \<not> StringInSlice k changedKeys
           then changedKeys @ [k] else changedKeys)
      else diff_keys kvs other (dbUpdateNeeded, changedKeys))"

text \<open>
  \<^verbatim>\<open>configChanged\<close> returns its four results and the store; \<open>failure\<close> is the
  error of the deep copy, if it fails.
\<close>

definition configChanged :: "error option \<Rightarrow> heap \<Rightarrow> common \<Rightarrow> NetworkPut
    \<Rightarrow> (bool \<times> string list \<times> NetworkPut \<times> error option) \<times> heap" where
  "configChanged failure h n newNetwork =
     (let (a, h1) = make_map h;
          oldNetwork = \<lparr>Description = description n, Config = Some a\<rparr>;
          (err, h2) = DeepCopy failure h1 (config n) a
      in case err of
           Some e \<Rightarrow> ((False, [], oldNetwork, Some e), h2)
         | None \<Rightarrow>
             (let changedKeys = [];
                  dbUpdateNeeded = False;
                  dbUpdateNeeded =
                    (if Description newNetwork \<noteq> description n then True else dbUpdateNeeded);
                  (dbUpdateNeeded, changedKeys) =
                    diff_keys (deref h2 (Config oldNetwork)) (deref h2 (Config newNetwork))
                      (dbUpdateNeeded, changedKeys);
                  (dbUpdateNeeded, changedKeys) =
                    diff_keys (deref h2 (Config newNetwork)) (deref h2 (Config oldNetwork))
                      (dbUpdateNeeded, changedKeys)
              in ((dbUpdateNeeded, changedKeys, oldNetwork, None), h2)))"

section \<open>Properties of update\<close>

text \<open>
  C1: for every newSpec, targetNode and entity state, update with isClusterNotification
  = true sets the in-memory description and config to the values of newSpec, leaves
  every other field and the store as they were, and makes no call at all: no notifier
  call and no database write.
\<close>

theorem update_notification_frame:
  "update e h n applyNetwork targetNode True =
     (None, n\<lparr>description := Description applyNetwork, config := Config applyNetwork\<rparr>, h, [])"
  by (simp add: update_def)

text \<open>
  C10: update with isClusterNotification = true returns nil for every newSpec, targetNode,
  entity, store and environment.
\<close>

theorem update_notification_returns_nil:
  "fst (update e h n applyNetwork targetNode True) = None"
  by (simp add: update_def)

subsection \<open>Top-level updates\<close>

lemma notifier_Some:
  "notifier peers hook = Some err \<Longrightarrow> \<exists>q \<in> set peers. hook q = Some err"
  by (induction peers) (auto simp: notifier_def split: option.splits list.splits)

lemma notifier_None:
  "(notifier peers hook = None) = (\<forall>q \<in> set peers. hook q = None)"
  by (induction peers) (auto simp: notifier_def split: option.splits list.splits)

lemma forward_keys_length: "length (forward_keys ns kvs a h) = length h"
  by (induction ns kvs a h rule: forward_keys.induct) (auto simp: assign_def)

lemma forward_keys_other: "b \<noteq> a \<Longrightarrow> forward_keys ns kvs a h ! b = h ! b"
  by (induction ns kvs a h rule: forward_keys.induct) (auto simp: assign_def)



lemma forward_keys_fresh:
  "forward_keys ns kvs (length h) (h @ [[]]) = h @ [forward_keys ns kvs (length h) (h @ [[]]) ! length h]"
proof (rule nth_equalityI)
  show "length (forward_keys ns kvs (length h) (h @ [[]])) =
        length (h @ [forward_keys ns kvs (length h) (h @ [[]]) ! length h])"
    by (simp add: forward_keys_length)
next
  fix i assume "i < length (forward_keys ns kvs (length h) (h @ [[]]))"
  then have "i < length h \<or> i = length h" by (auto simp: forward_keys_length)
  then show "forward_keys ns kvs (length h) (h @ [[]]) ! i =
        (h @ [forward_keys ns kvs (length h) (h @ [[]]) ! length h]) ! i"
    by (auto simp: forward_keys_other nth_append)
qed

lemma deref_append: "ref_ok h r \<Longrightarrow> deref (h @ h') r = deref h r"
  by (auto simp: ref_ok_def deref_def nth_append split: option.splits)

lemma notify_all_Inr_shape:
  assumes "NewNotifier e = Inr peers"
  shows "\<exists>T. notify_all e h n put =
           (notifier peers (\<lambda>c. ClientUpdateNetwork e c (name n) (Description put) T []),
            h @ [T],
            CallNewNotifier #
              map (\<lambda>c. CallClientUpdateNetwork c (name n) (put\<lparr>Config := Some (length h)\<rparr>) []) peers)"
proof -
  let ?ns = "NodeSpecificNetworkConfig e"
  let ?kvs = "deref (h @ [[]]) (Config put)"
  let ?h2 = "forward_keys ?ns ?kvs (length h) (h @ [[]])"
  let ?T = "?h2 ! length h"
  have h2: "?h2 = h @ [?T]" by (rule forward_keys_fresh)
  have d2: "deref (h @ [?T]) (Some (length h)) = ?T" by (simp add: deref_def)
  have "notify_all e h n put =
           (notifier peers (\<lambda>c. ClientUpdateNetwork e c (name n) (Description put) ?T []),
            h @ [?T],
            CallNewNotifier #
              map (\<lambda>c. CallClientUpdateNetwork c (name n) (put\<lparr>Config := Some (length h)\<rparr>) []) peers)"
    unfolding notify_all_def make_map_def Let_def using assms h2 d2
    by simp
  then show ?thesis by blast
qed



lemma notify_all_Inl:
  "NewNotifier e = Inl err \<Longrightarrow> notify_all e h n put = (Some err, h, [CallNewNotifier])"
  by (simp add: notify_all_def)

text \<open>
  C2: a top-level update (isClusterNotification = false, empty targetNode) whose fan-out
  fails, because the notifier cannot be built or because a peer answers the
  notification with an error, returns that error (the notifier's own, or the error of a
  peer) and makes no database write. The entity's description and config stay set to
  the values of newSpec: the config is the reference of newSpec, every table of the
  store the call started with is as it was, and so the live config holds the pairs
  newSpec.Config held when the call was made.
\<close>

theorem update_propagation_error:
  assumes run: "update e h n applyNetwork [] False = (r, n', h', calls)"
    and fail: "NewNotifier e = Inl err0 \<or>
       (NewNotifier e = Inr peers \<and> p \<in> set peers \<and>
        ClientUpdateNetwork e p (name n) (Description applyNetwork)
          (deref h' (Some (length h))) [] = Some perr)"
  shows "(\<exists>err. r = Some err \<and>
            (NewNotifier e = Inl err \<or>
             (\<exists>q \<in> set peers. ClientUpdateNetwork e q (name n) (Description applyNetwork)
                 (deref h' (Some (length h))) [] = Some err)))
       \<and> (\<forall>nm d c. CallClusterUpdateNetwork nm d c \<notin> set calls)
       \<and> description n' = Description applyNetwork
       \<and> config n' = Config applyNetwork
       \<and> n' = n\<lparr>description := Description applyNetwork, config := Config applyNetwork\<rparr>
       \<and> take (length h) h' = h
       \<and> (ref_ok h (Config applyNetwork) \<longrightarrow>
            deref h' (config n') = deref h (Config applyNetwork))"
  using fail
proof
  assume inl: "NewNotifier e = Inl err0"
  with run have res: "r = Some err0"
    "n' = n\<lparr>description := Description applyNetwork, config := Config applyNetwork\<rparr>"
    "h' = h" "calls = [CallNewNotifier]"
    by (simp_all add: update_def notify_all_Inl)
  have a: "\<exists>err. r = Some err \<and>
            (NewNotifier e = Inl err \<or>
             (\<exists>q \<in> set peers. ClientUpdateNetwork e q (name n) (Description applyNetwork)
                 (deref h' (Some (length h))) [] = Some err))"
    using res(1) inl by blast
  have b: "\<forall>nm d c. CallClusterUpdateNetwork nm d c \<notin> set calls"
    unfolding res by simp
  show ?thesis
    using a b unfolding res(2,3) by simp
next
  assume f: "NewNotifier e = Inr peers \<and> p \<in> set peers \<and>
        ClientUpdateNetwork e p (name n) (Description applyNetwork)
          (deref h' (Some (length h))) [] = Some perr"
  let ?n1 = "n\<lparr>description := Description applyNetwork, config := Config applyNetwork\<rparr>"
  from f notify_all_Inr_shape [of e peers h ?n1 applyNetwork]
  obtain T where T: "notify_all e h ?n1 applyNetwork =
           (notifier peers (\<lambda>c. ClientUpdateNetwork e c (name n) (Description applyNetwork) T []),
            h @ [T],
            CallNewNotifier #
              map (\<lambda>c. CallClientUpdateNetwork c (name n) (applyNetwork\<lparr>Config := Some (length h)\<rparr>) []) peers)"
    by auto
  let ?hook = "\<lambda>c. ClientUpdateNetwork e c (name n) (Description applyNetwork) T []"
  have h': "h' = h @ [T]"
    using run T by (auto simp: update_def Let_def split: option.splits)
  then have d: "deref h' (Some (length h)) = T" by (simp add: deref_def)
  with f have "notifier peers ?hook \<noteq> None"
    by (auto simp: notifier_None)
  then obtain err where err: "notifier peers ?hook = Some err" by auto
  then have q: "\<exists>q \<in> set peers. ?hook q = Some err" by (rule notifier_Some)
  have "update e h n applyNetwork [] False =
          (Some err, ?n1, h @ [T],
           CallNewNotifier #
              map (\<lambda>c. CallClientUpdateNetwork c (name n) (applyNetwork\<lparr>Config := Some (length h)\<rparr>) []) peers)"
    using T err by (simp add: update_def Let_def)
  with run have res: "r = Some err" "n' = ?n1"
    "calls = CallNewNotifier #
              map (\<lambda>c. CallClientUpdateNetwork c (name n) (applyNetwork\<lparr>Config := Some (length h)\<rparr>) []) peers"
    by simp_all
  have b: "\<forall>nm d c. CallClusterUpdateNetwork nm d c \<notin> set calls"
    unfolding res by auto
  have a: "\<exists>err. r = Some err \<and>
            (NewNotifier e = Inl err \<or>
             (\<exists>q \<in> set peers. ClientUpdateNetwork e q (name n) (Description applyNetwork)
                 (deref h' (Some (length h))) [] = Some err))"
    using q res(1) unfolding d by blast
  have c: "take (length h) h' = h" unfolding h' by simp
  have live: "ref_ok h (Config applyNetwork) \<longrightarrow>
      deref h' (config ?n1) = deref h (Config applyNetwork)"
    unfolding h' by (simp add: deref_append)
  show ?thesis
    using a b c live unfolding res(2) by simp
qed



theorem update_propagation_error_witness:
  "(let e0 = \<lparr>NodeSpecificNetworkConfig = [''bridge.external_interfaces''],
              NewNotifier = Inr [''node2'', ''node3''],
              ClientUpdateNetwork =
                (\<lambda>c nm d m etag. if c = ''node3'' then Some (Err ''rejected'') else None),
              ClusterUpdateNetwork = (\<lambda>nm d m. None),
              ClusterDeleteNetwork = (\<lambda>nm. None)\<rparr>;
        h0 = [[(''ipv4.nat'', ''false'')], [(''ipv4.nat'', ''true'')]];
        n0 = \<lparr>logger = [(''driver'', ''bridge''), (''network'', ''lxdbr0'')], state = 0,
              id' = 1, name = ''lxdbr0'', netType = ''bridge'', description = ''old'',
              config = Some 0, status = ''Created''\<rparr>;
        put0 = \<lparr>Description = ''new'', Config = Some 1\<rparr>;
        n1 = n0\<lparr>description := ''new'', config := Some 1\<rparr>;
        h1 = h0 @ [[(''ipv4.nat'', ''true'')]];
        calls0 = [CallNewNotifier,
                  CallClientUpdateNetwork ''node2'' ''lxdbr0'' \<lparr>Description = ''new'', Config = Some 2\<rparr> [],
                  CallClientUpdateNetwork ''node3'' ''lxdbr0'' \<lparr>Description = ''new'', Config = Some 2\<rparr> []]
    in update e0 h0 n0 put0 [] False = (Some (Err ''rejected''), n1, h1, calls0)
     \<and> ClientUpdateNetwork e0 ''node3'' (name n0) (Description put0)
          (deref h1 (Some (length h0))) [] = Some (Err ''rejected'')
     \<and> (\<forall>nm d c. CallClusterUpdateNetwork nm d c \<notin> set calls0)
     \<and> description n1 = Description put0 \<and> config n1 = Config put0
     \<and> ref_ok h0 (Config put0)
     \<and> deref h1 (config n1) = [(''ipv4.nat'', ''true'')]
     \<and> deref h1 (config n1) = deref h0 (Config put0))"
proof -
  let ?e0 = "\<lparr>NodeSpecificNetworkConfig = [''bridge.external_interfaces''],
              NewNotifier = Inr [''node2'', ''node3''],
              ClientUpdateNetwork =
                (\<lambda>c nm d m etag. if c = ''node3'' then Some (Err ''rejected'') else None),
              ClusterUpdateNetwork = (\<lambda>nm d m. None),
              ClusterDeleteNetwork = (\<lambda>nm. None)\<rparr>"
  let ?h0 = "[[(''ipv4.nat'', ''false'')], [(''ipv4.nat'', ''true'')]]"
  let ?n0 = "\<lparr>logger = [(''driver'', ''bridge''), (''network'', ''lxdbr0'')], state = 0,
              id' = 1, name = ''lxdbr0'', netType = ''bridge'', description = ''old'',
              config = Some 0, status = ''Created''\<rparr>"
  let ?put0 = "\<lparr>Description = ''new'', Config = Some 1\<rparr>"
  let ?n1 = "?n0\<lparr>description := ''new'', config := Some 1\<rparr>"
  let ?h1 = "?h0 @ [[(''ipv4.nat'', ''true'')]]"
  let ?calls0 = "[CallNewNotifier,
                  CallClientUpdateNetwork ''node2'' ''lxdbr0'' \<lparr>Description = ''new'', Config = Some 2\<rparr> [],
                  CallClientUpdateNetwork ''node3'' ''lxdbr0'' \<lparr>Description = ''new'', Config = Some 2\<rparr> []]"
  have run: "update ?e0 ?h0 ?n0 ?put0 [] False = (Some (Err ''rejected''), ?n1, ?h1, ?calls0)"
    by (simp add: update_def notify_all_def make_map_def deref_def assign_def
        StringInSlice_def notifier_def Let_def)
  have fail: "NewNotifier ?e0 = Inl (Err []) \<or>
       (NewNotifier ?e0 = Inr [''node2'', ''node3''] \<and> ''node3'' \<in> set [''node2'', ''node3''] \<and>
        ClientUpdateNetwork ?e0 ''node3'' (name ?n0) (Description ?put0)
          (deref ?h1 (Some (length ?h0))) [] = Some (Err ''rejected''))"
    by (simp add: deref_def)
  from update_propagation_error [OF run fail] run fail
  show ?thesis by (simp add: Let_def deref_def ref_ok_def)
qed


section \<open>Properties of validate\<close>

lemma map_of_merge_rules:
  "map_of (merge_rules ds rs) = map_of rs ++ map_of (rev ds)"
  by (induction ds rs rule: merge_rules.induct) (auto simp: update_conv' fun_eq_iff map_add_def split: option.splits)

lemma distinct_merge_rules:
  "distinct (map fst rs) \<Longrightarrow> distinct (map fst (merge_rules ds rs))"
  by (induction ds rs rule: merge_rules.induct) (auto simp: distinct_update)

lemma map_of_rev_distinct: "distinct (map fst xs) \<Longrightarrow> map_of (rev xs) = map_of xs"
  by (rule map_of_inject_set [THEN iffD2]) (auto simp: rev_map [symmetric])

lemma run_validators_Inr:
  "(run_validators nm conf rs S = Inr S') =
     ((\<forall>(k, f) \<in> set rs. f (index conf k) = None) \<and> S' = S \<union> fst ` set rs)"
  by (induction nm conf rs S rule: run_validators.induct) (auto simp: Let_def split: option.splits)

lemma run_validators_Inl:
  "run_validators nm conf rs S = Inl err \<Longrightarrow>
     \<exists>(k, f) \<in> set rs. \<exists>cause. f (index conf k) = Some cause \<and> err = InvalidValue nm k cause"
  by (induction nm conf rs S rule: run_validators.induct) (auto simp: Let_def split: option.splits)

lemma unchecked_fields_None:
  "(unchecked_fields nm S conf = None) =
     (\<forall>k \<in> fst ` set conf. k \<in> S \<or> HasPrefix k ''user.'')"
  by (induction nm S conf rule: unchecked_fields.induct) auto

lemma unchecked_fields_Some:
  "unchecked_fields nm S conf = Some err \<Longrightarrow>
     \<exists>k \<in> fst ` set conf. k \<notin> S \<and> \<not> HasPrefix k ''user.'' \<and> err = InvalidOption nm k"
  by (induction nm S conf rule: unchecked_fields.induct) (auto split: if_splits)


lemma effective_rules_merge:
  assumes "distinct (map fst driverRules)"
  shows "map_of (merge_rules driverRules (validationRules n)) = effective_rules n driverRules"
  using assms by (simp add: map_of_merge_rules effective_rules_def map_of_rev_distinct)

lemma distinct_merged:
  "distinct (map fst (merge_rules driverRules (validationRules n)))"
  by (rule distinct_merge_rules) (simp add: validationRules_def)

text \<open>
  C4: for every config c and rule set R (a Go map, so with distinct keys), validate(c, R)
  returns nil if and only if every rule of the effective rule set (the common rules
  overridden by R) accepts the value c has for its key, the empty string when the key is
  absent, and every key of c is in the effective rule set or prefixed "user."; otherwise
  it returns an error that carries the name of the network and the offending key: a key
  whose rule rejects its value, with the rule's error, or a key of c that has no rule
  and no "user." prefix.
\<close>

theorem validate_iff:
  assumes "distinct (map fst driverRules)"
  shows "((validate n conf driverRules = None) =
            ((\<forall>k f. effective_rules n driverRules k = Some f \<longrightarrow> f (index conf k) = None) \<and>
             (\<forall>k \<in> fst ` set conf.
                 effective_rules n driverRules k \<noteq> None \<or> HasPrefix k ''user.'')))
       \<and> (\<forall>err. validate n conf driverRules = Some err \<longrightarrow>
             (\<exists>k f cause. effective_rules n driverRules k = Some f \<and>
                  f (index conf k) = Some cause \<and> err = InvalidValue (name n) k cause) \<or>
             (\<exists>k \<in> fst ` set conf. effective_rules n driverRules k = None \<and>
                  \<not> HasPrefix k ''user.'' \<and> err = InvalidOption (name n) k))"
proof -
  let ?rs = "merge_rules driverRules (validationRules n)"
  let ?eff = "effective_rules n driverRules"
  have mem: "((k, f) \<in> set ?rs) = (?eff k = Some f)" for k f
    using distinct_merged [of driverRules n] effective_rules_merge [OF assms, of n]
    by (metis map_of_eq_Some_iff)
  have keys: "(k \<in> fst ` set ?rs) = (?eff k \<noteq> None)" for k
    using effective_rules_merge [OF assms, of n] by (metis map_of_eq_None_iff)
  show ?thesis
  proof (cases "run_validators (name n) conf ?rs {}")
    case (Inl err)
    from run_validators_Inl [OF Inl] obtain k f cause where
      kf: "(k, f) \<in> set ?rs" "f (index conf k) = Some cause" "err = InvalidValue (name n) k cause"
      by auto
    have v: "validate n conf driverRules = Some err"
      using Inl by (simp add: validate_def)
    have "\<not> (\<forall>k f. ?eff k = Some f \<longrightarrow> f (index conf k) = None)"
      using kf mem by force
    moreover have "\<exists>k f cause. ?eff k = Some f \<and> f (index conf k) = Some cause \<and>
        err = InvalidValue (name n) k cause"
      using kf mem by blast
    ultimately show ?thesis using v by simp
  next
    case (Inr S)
    then have all: "\<forall>(k, f) \<in> set ?rs. f (index conf k) = None" and S: "S = fst ` set ?rs"
      by (simp_all add: run_validators_Inr)
    have v: "validate n conf driverRules = unchecked_fields (name n) S conf"
      using Inr by (simp add: validate_def)
    have rules_ok: "\<forall>k f. ?eff k = Some f \<longrightarrow> f (index conf k) = None"
      using all mem by blast
    have inS: "(k \<in> S) = (?eff k \<noteq> None)" for k
      using keys S by simp
    have a: "(validate n conf driverRules = None) =
        (\<forall>k \<in> fst ` set conf. ?eff k \<noteq> None \<or> HasPrefix k ''user.'')"
      unfolding v unchecked_fields_None inS ..
    have b: "(\<exists>k \<in> fst ` set conf. ?eff k = None \<and>
                  \<not> HasPrefix k ''user.'' \<and> err = InvalidOption (name n) k)"
      if "validate n conf driverRules = Some err" for err
      using unchecked_fields_Some [of "name n" S conf err] that inS unfolding v by blast
    have c: "\<forall>err. validate n conf driverRules = Some err \<longrightarrow>
             (\<exists>k f cause. ?eff k = Some f \<and>
                  f (index conf k) = Some cause \<and> err = InvalidValue (name n) k cause) \<or>
             (\<exists>k \<in> fst ` set conf. ?eff k = None \<and>
                  \<not> HasPrefix k ''user.'' \<and> err = InvalidOption (name n) k)"
      using b by (intro allI impI disjI2)
    have r: "(\<forall>k f. ?eff k = Some f \<longrightarrow> f (index conf k) = None) = True"
      using rules_ok by (rule eqTrueI)
    show ?thesis
      by (rule conjI [OF _ c]) (simp only: a r simp_thms)
  qed
qed

theorem validate_iff_witness:
  "(let n0 = \<lparr>logger = [(''driver'', ''bridge''), (''network'', ''lxdbr0'')], state = 0,
              id' = 1, name = ''lxdbr0'', netType = ''bridge'', description = [],
              config = None, status = ''Created''\<rparr>;
        bool_rule = (\<lambda>v. if v = [] \<or> v = ''true'' \<or> v = ''false'' then None
                          else Some (Err ''Invalid value for a boolean''));
        driverRules = [(''ipv4.nat'', bool_rule), (''ipv6.nat'', bool_rule)]
    in distinct (map fst driverRules)
     \<and> validate n0 [(''ipv4.nat'', ''true''), (''user.note'', ''x'')] driverRules = None
     \<and> validate n0 [(''ipv4.nat'', ''maybe'')] driverRules =
         Some (InvalidValue ''lxdbr0'' ''ipv4.nat'' (Err ''Invalid value for a boolean''))
     \<and> validate n0 [(''ipv4.nat'', ''true''), (''ipv4.nta'', ''true'')] driverRules =
         Some (InvalidOption ''lxdbr0'' ''ipv4.nta'')
     \<and> ((validate n0 [(''ipv4.nat'', ''true''), (''user.note'', ''x'')] driverRules = None) =
         ((\<forall>k f. effective_rules n0 driverRules k = Some f \<longrightarrow>
             f (index [(''ipv4.nat'', ''true''), (''user.note'', ''x'')] k) = None) \<and>
          (\<forall>k \<in> fst ` set [(''ipv4.nat'', ''true''), (''user.note'', ''x'')].
             effective_rules n0 driverRules k \<noteq> None \<or> HasPrefix k ''user.''))))"
proof -
  let ?n0 = "\<lparr>logger = [(''driver'', ''bridge''), (''network'', ''lxdbr0'')], state = 0,
              id' = 1, name = ''lxdbr0'', netType = ''bridge'', description = [],
              config = None, status = ''Created''\<rparr>"
  let ?b = "(\<lambda>v. if v = [] \<or> v = ''true'' \<or> v = ''false'' then None
                          else Some (Err ''Invalid value for a boolean''))"
  let ?R = "[(''ipv4.nat'', ?b), (''ipv6.nat'', ?b)]"
  have d: "distinct (map fst ?R)" by simp
  have v1: "validate ?n0 [(''ipv4.nat'', ''true''), (''user.note'', ''x'')] ?R = None"
    by (simp add: validate_def validationRules_def index_def HasPrefix_def Let_def)
  have v2: "validate ?n0 [(''ipv4.nat'', ''maybe'')] ?R =
         Some (InvalidValue ''lxdbr0'' ''ipv4.nat'' (Err ''Invalid value for a boolean''))"
    by (simp add: validate_def validationRules_def index_def HasPrefix_def Let_def)
  have v3: "validate ?n0 [(''ipv4.nat'', ''true''), (''ipv4.nta'', ''true'')] ?R =
         Some (InvalidOption ''lxdbr0'' ''ipv4.nta'')"
    by (simp add: validate_def validationRules_def index_def HasPrefix_def Let_def)
  from validate_iff [OF d, of ?n0 "[(''ipv4.nat'', ''true''), (''user.note'', ''x'')]"]
  have "(validate ?n0 [(''ipv4.nat'', ''true''), (''user.note'', ''x'')] ?R = None) =
         ((\<forall>k f. effective_rules ?n0 ?R k = Some f \<longrightarrow>
             f (index [(''ipv4.nat'', ''true''), (''user.note'', ''x'')] k) = None) \<and>
          (\<forall>k \<in> fst ` set [(''ipv4.nat'', ''true''), (''user.note'', ''x'')].
             effective_rules ?n0 ?R k \<noteq> None \<or> HasPrefix k ''user.''))"
    by (rule conjunct1)
  with d v1 v2 v3 show ?thesis unfolding Let_def by (intro conjI)
qed

section \<open>Properties of DHCPv4Ranges and DHCPv6Ranges\<close>

lemma set_TrimLeftFunc_keep:
  "\<forall>e \<in> set es. c \<notin> set e \<Longrightarrow> (c \<in> set (TrimLeftFunc es s)) = (c \<in> set s)"
proof (induction es s rule: TrimLeftFunc.induct)
  case (1 es s)
  show ?case
  proof (cases "find (\<lambda>e. e \<noteq> [] \<and> take (length e) s = e) es")
    case None
    then show ?thesis by (simp add: TrimLeftFunc.simps [of es s])
  next
    case (Some e)
    then have e: "e \<in> set es" "take (length e) s = e"
      by (auto simp: find_Some_iff)
    from e(1) "1.prems" have "c \<notin> set e" by blast
    moreover have "set s = set e \<union> set (drop (length e) s)"
      using e(2) append_take_drop_id [of "length e" s] by (metis set_append)
    ultimately have "(c \<in> set (drop (length e) s)) = (c \<in> set s)" by simp
    with "1.IH" [OF Some "1.prems"] Some show ?thesis
      by (simp add: TrimLeftFunc.simps [of es s])
  qed
qed

lemma hyphen_TrimSpace: "(CHR ''-'' \<in> set (TrimSpace r)) = (CHR ''-'' \<in> set r)"
proof -
  have l: "\<forall>e \<in> set whiteSpace. CHR ''-'' \<notin> set e"
    by (simp add: whiteSpace_def)
  then have r: "\<forall>e \<in> set (map rev whiteSpace). CHR ''-'' \<notin> set e"
    by simp
  show ?thesis
    unfolding TrimSpace_def TrimRightFunc_def
    by (simp only: set_rev set_TrimLeftFunc_keep [OF r] set_TrimLeftFunc_keep [OF l])
qed

lemma SplitN_2:
  "SplitN s sep 2 =
     (if sep \<in> set s then [takeWhile (\<lambda>c. c \<noteq> sep) s, tl (dropWhile (\<lambda>c. c \<noteq> sep) s)]
      else [s])"
  by (simp add: numeral_2_eq_2)

lemma ranges_v4_map_filter:
  "ranges_v4 net rs acc =
     acc @ map (\<lambda>r. \<lparr>Start = To4 net (ParseIP net (takeWhile (\<lambda>c. c \<noteq> CHR ''-'') (TrimSpace r))),
                     End = To4 net (ParseIP net (tl (dropWhile (\<lambda>c. c \<noteq> CHR ''-'') (TrimSpace r))))\<rparr>)
             (filter (\<lambda>r. CHR ''-'' \<in> set r) rs)"
  by (induction rs arbitrary: acc) (simp_all add: SplitN_2 hyphen_TrimSpace Let_def)

lemma ranges_v6_map_filter:
  "ranges_v6 net rs acc =
     acc @ map (\<lambda>r. \<lparr>Start = To16 net (ParseIP net (takeWhile (\<lambda>c. c \<noteq> CHR ''-'') (TrimSpace r))),
                     End = To16 net (ParseIP net (tl (dropWhile (\<lambda>c. c \<noteq> CHR ''-'') (TrimSpace r))))\<rparr>)
             (filter (\<lambda>r. CHR ''-'' \<in> set r) rs)"
  by (induction rs arbitrary: acc) (simp_all add: SplitN_2 hyphen_TrimSpace Let_def)

text \<open>
  C5, as amended: DHCPv4Ranges and DHCPv6Ranges return no error, for every config. An
  entry of the comma-separated list with no hyphen contributes no element. Every entry
  with a hyphen contributes exactly one range, in order: its start is parsed from the
  trimmed entry's text before the first hyphen and its end from all the text after the
  first hyphen, whatever ParseIP makes of them, so also when an endpoint is not an IP
  literal or when the entry has more than two hyphen-separated parts.
\<close>

theorem DHCPRanges_entries:
  "DHCPv4Ranges net h n =
     map (\<lambda>r. \<lparr>Start = To4 net (ParseIP net (takeWhile (\<lambda>c. c \<noteq> CHR ''-'') (TrimSpace r))),
               End = To4 net (ParseIP net (tl (dropWhile (\<lambda>c. c \<noteq> CHR ''-'') (TrimSpace r))))\<rparr>)
         (filter (\<lambda>r. CHR ''-'' \<in> set r)
            (Split (index (deref h (config n)) ''ipv4.dhcp.ranges'') CHR '',''))
   \<and> DHCPv6Ranges net h n =
     map (\<lambda>r. \<lparr>Start = To16 net (ParseIP net (takeWhile (\<lambda>c. c \<noteq> CHR ''-'') (TrimSpace r))),
               End = To16 net (ParseIP net (tl (dropWhile (\<lambda>c. c \<noteq> CHR ''-'') (TrimSpace r))))\<rparr>)
         (filter (\<lambda>r. CHR ''-'' \<in> set r)
            (Split (index (deref h (config n)) ''ipv6.dhcp.ranges'') CHR '',''))"
proof
  show "DHCPv4Ranges net h n =
     map (\<lambda>r. \<lparr>Start = To4 net (ParseIP net (takeWhile (\<lambda>c. c \<noteq> CHR ''-'') (TrimSpace r))),
               End = To4 net (ParseIP net (tl (dropWhile (\<lambda>c. c \<noteq> CHR ''-'') (TrimSpace r))))\<rparr>)
         (filter (\<lambda>r. CHR ''-'' \<in> set r)
            (Split (index (deref h (config n)) ''ipv4.dhcp.ranges'') CHR '',''))"
    by (cases "index (deref h (config n)) ''ipv4.dhcp.ranges'' = []")
       (simp_all add: DHCPv4Ranges_def ranges_v4_map_filter)
next
  show "DHCPv6Ranges net h n =
     map (\<lambda>r. \<lparr>Start = To16 net (ParseIP net (takeWhile (\<lambda>c. c \<noteq> CHR ''-'') (TrimSpace r))),
               End = To16 net (ParseIP net (tl (dropWhile (\<lambda>c. c \<noteq> CHR ''-'') (TrimSpace r))))\<rparr>)
         (filter (\<lambda>r. CHR ''-'' \<in> set r)
            (Split (index (deref h (config n)) ''ipv6.dhcp.ranges'') CHR '',''))"
    by (cases "index (deref h (config n)) ''ipv6.dhcp.ranges'' = []")
       (simp_all add: DHCPv6Ranges_def ranges_v6_map_filter)
qed

text \<open>
  The claim as stated fails: the entry \<^verbatim>\<open>10.0.0.2-10.0.0.9-10.0.0.20\<close> has three
  hyphen-separated parts and the endpoints of \<^verbatim>\<open>x-y\<close> are no IP literals, yet each
  contributes an element to the result, whatever ParseIP, To4 and To16 return.
\<close>

theorem DHCPRanges_skip_malformed_counterexample:
  "\<forall>net.
     length (DHCPv4Ranges net
        [[(''ipv4.dhcp.ranges'', ''10.0.0.2-10.0.0.9-10.0.0.20, x-y''),
          (''ipv6.dhcp.ranges'', ''fd42::2-fd42::9-fd42::20, x-y'')]]
        \<lparr>logger = [(''driver'', ''bridge''), (''network'', ''lxdbr0'')], state = 0,
         id' = 1, name = ''lxdbr0'', netType = ''bridge'', description = [],
         config = Some 0, status = ''Created''\<rparr>) = 2
   \<and> length (DHCPv6Ranges net
        [[(''ipv4.dhcp.ranges'', ''10.0.0.2-10.0.0.9-10.0.0.20, x-y''),
          (''ipv6.dhcp.ranges'', ''fd42::2-fd42::9-fd42::20, x-y'')]]
        \<lparr>logger = [(''driver'', ''bridge''), (''network'', ''lxdbr0'')], state = 0,
         id' = 1, name = ''lxdbr0'', netType = ''bridge'', description = [],
         config = Some 0, status = ''Created''\<rparr>) = 2"
  by (simp add: DHCPv4Ranges_def DHCPv6Ranges_def deref_def index_def TrimSpace_def
      TrimRightFunc_def TrimLeftFunc.simps whiteSpace_def numeral_2_eq_2 Let_def)

section \<open>Properties of IsUsed\<close>

lemma scan_fst_None: "(fst (scan f c xs) = None) = (\<forall>x \<in> set xs. f x = Inr False)"
  by (induction xs) (auto split: sum.splits prod.splits)

lemma scan_snd_None: "fst (scan f c xs) = None \<Longrightarrow> snd (scan f c xs) = map c xs"
  by (induction xs) (auto split: sum.splits prod.splits if_splits)

lemma scan_None:
  "(scan f c xs = (None, cs)) = ((\<forall>x \<in> set xs. f x = Inr False) \<and> cs = map c xs)"
  using scan_fst_None [of f c xs] scan_snd_None [of f c xs]
  by (cases "scan f c xs") auto

lemma scan_Some:
  "scan f c xs = (Some (b, er), cs) \<Longrightarrow>
     \<exists>ys x zs. xs = ys @ x # zs \<and> (\<forall>y \<in> set ys. f y = Inr False) \<and> cs = map c ys @ [c x] \<and>
        ((f x = Inr True \<and> b \<and> er = None) \<or> (\<exists>err. f x = Inl err \<and> \<not> b \<and> er = Some err))"
proof (induction xs arbitrary: cs)
  case Nil
  then show ?case by simp
next
  case (Cons a xs)
  show ?case
  proof (cases "f a")
    case (Inl err)
    with Cons.prems have "b = False \<and> er = Some err \<and> cs = [c a]" by auto
    with Inl show ?thesis by (intro exI [of _ "[]"] exI [of _ a] exI [of _ xs]) simp
  next
    case (Inr u)
    show ?thesis
    proof (cases u)
      case True
      with Inr Cons.prems have "b \<and> er = None \<and> cs = [c a]" by auto
      with Inr True show ?thesis by (intro exI [of _ "[]"] exI [of _ a] exI [of _ xs]) simp
    next
      case False
      with Inr Cons.prems obtain cs' where cs': "scan f c xs = (Some (b, er), cs')" "cs = c a # cs'"
        by (auto split: prod.splits)
      from Cons.IH [OF cs'(1)] obtain ys x zs where
        "xs = ys @ x # zs" "\<forall>y \<in> set ys. f y = Inr False" "cs' = map c ys @ [c x]"
        "(f x = Inr True \<and> b \<and> er = None) \<or> (\<exists>err. f x = Inl err \<and> \<not> b \<and> er = Some err)"
        by blast
      with Inr False cs'(2) show ?thesis
        by (intro exI [of _ "a # ys"] exI [of _ x] exI [of _ zs]) simp
    qed
  qed
qed


text \<open>
  C6: let IsUsed return (used, err) after the calls it made. If both enumerations and
  every predicate call succeed, err is nil and used is true exactly when some instance
  or some profile references the network. The profiles are enumerated only after every
  instance answered false. (false, nil) is returned only after the full run: both
  enumerations, every instance and every profile asked, all answering false. The
  operation stops at its first failing call: no call before the last one failed, and
  err is the error of the last call; with an error the result is false.
\<close>

theorem IsUsed_spec:
  assumes run: "IsUsed e n = ((used, err), calls)"
  shows "(\<forall>insts profiles.
            LoadFromAllProjects e = Inr insts \<and> GetProfiles e = Inr profiles \<and>
            (\<forall>i \<in> set insts. \<exists>b. IsInUseByInstance e i (name n) = Inr b) \<and>
            (\<forall>p \<in> set profiles. \<exists>b. IsInUseByProfile e p (name n) = Inr b) \<longrightarrow>
            err = None \<and>
            used = ((\<exists>i \<in> set insts. IsInUseByInstance e i (name n) = Inr True) \<or>
                    (\<exists>p \<in> set profiles. IsInUseByProfile e p (name n) = Inr True)))
       \<and> (CallGetProfiles \<in> set calls \<longrightarrow>
            (\<exists>insts. LoadFromAllProjects e = Inr insts \<and>
               (\<forall>i \<in> set insts. IsInUseByInstance e i (name n) = Inr False)))
       \<and> (\<not> used \<and> err = None \<longrightarrow>
            (\<exists>insts profiles.
               LoadFromAllProjects e = Inr insts \<and> GetProfiles e = Inr profiles \<and>
               (\<forall>i \<in> set insts. IsInUseByInstance e i (name n) = Inr False) \<and>
               (\<forall>p \<in> set profiles. IsInUseByProfile e p (name n) = Inr False) \<and>
               calls = CallLoadFromAllProjects #
                       map (\<lambda>i. CallIsInUseByInstance i (name n)) insts @
                       CallGetProfiles #
                       map (\<lambda>p. CallIsInUseByProfile p (name n)) profiles))
       \<and> (\<exists>cs c. calls = cs @ [c] \<and> (\<forall>c' \<in> set cs. call_error e c' = None) \<and>
             call_error e c = err)
       \<and> (err \<noteq> None \<longrightarrow> \<not> used)"
proof (cases "LoadFromAllProjects e")
  case (Inl er)
  with run have r: "used = False" "err = Some er" "calls = [CallLoadFromAllProjects]"
    by (simp_all add: IsUsed_def)
  have "\<exists>cs c. calls = cs @ [c] \<and> (\<forall>c' \<in> set cs. call_error e c' = None) \<and> call_error e c = err"
    using r Inl by (intro exI [of _ "[]"] exI [of _ CallLoadFromAllProjects]) simp
  then have c4: "\<exists>cs c. calls = cs @ [c] \<and> (\<forall>c' \<in> set cs. call_error e c' = None) \<and> call_error e c = err" .
        have c1: "\<forall>insts profiles.
            LoadFromAllProjects e = Inr insts \<and> GetProfiles e = Inr profiles \<and>
            (\<forall>i \<in> set insts. \<exists>b. IsInUseByInstance e i (name n) = Inr b) \<and>
            (\<forall>p \<in> set profiles. \<exists>b. IsInUseByProfile e p (name n) = Inr b) \<longrightarrow>
            err = None \<and>
            used = ((\<exists>i \<in> set insts. IsInUseByInstance e i (name n) = Inr True) \<or>
                    (\<exists>p \<in> set profiles. IsInUseByProfile e p (name n) = Inr True))" using Inl by simp
        have c2': "CallGetProfiles \<in> set calls \<longrightarrow>
            (\<exists>insts. LoadFromAllProjects e = Inr insts \<and>
               (\<forall>i \<in> set insts. IsInUseByInstance e i (name n) = Inr False))" using r by simp
        have c3': "\<not> used \<and> err = None \<longrightarrow>
            (\<exists>insts profiles.
               LoadFromAllProjects e = Inr insts \<and> GetProfiles e = Inr profiles \<and>
               (\<forall>i \<in> set insts. IsInUseByInstance e i (name n) = Inr False) \<and>
               (\<forall>p \<in> set profiles. IsInUseByProfile e p (name n) = Inr False) \<and>
               calls = CallLoadFromAllProjects #
                       map (\<lambda>i. CallIsInUseByInstance i (name n)) insts @
                       CallGetProfiles #
                       map (\<lambda>p. CallIsInUseByProfile p (name n)) profiles)" using r by simp
        have c5': "err \<noteq> None \<longrightarrow> \<not> used" using r by simp
        from c1 c2' c3' c4 c5' show ?thesis by (intro conjI)
next
  case (Inr insts)
  let ?fi = "\<lambda>inst. IsInUseByInstance e inst (name n)"
  let ?ci = "\<lambda>inst. CallIsInUseByInstance inst (name n) :: ('a, 'b) usage_call"
  let ?fp = "\<lambda>profile. IsInUseByProfile e profile (name n)"
  let ?cp = "\<lambda>profile. CallIsInUseByProfile profile (name n) :: ('a, 'b) usage_call"
  obtain r1 calls1 where s1: "scan ?fi ?ci insts = (r1, calls1)" by (cases "scan ?fi ?ci insts")
  show ?thesis
  proof (cases r1)
    case (Some r)
    obtain b er where r: "r = (b, er)" by (cases r)
    from run Inr s1 Some r have res: "used = b" "err = er" "calls = CallLoadFromAllProjects # calls1"
      by (simp_all add: IsUsed_def)
    from scan_Some [of ?fi ?ci insts b er calls1] s1 Some r obtain ys x zs where
      d: "insts = ys @ x # zs" "\<forall>y \<in> set ys. ?fi y = Inr False" "calls1 = map ?ci ys @ [?ci x]"
        "(?fi x = Inr True \<and> b \<and> er = None) \<or> (\<exists>err. ?fi x = Inl err \<and> \<not> b \<and> er = Some err)"
      by auto
    have c1: "\<forall>insts profiles.
            LoadFromAllProjects e = Inr insts \<and> GetProfiles e = Inr profiles \<and>
            (\<forall>i \<in> set insts. \<exists>b. IsInUseByInstance e i (name n) = Inr b) \<and>
            (\<forall>p \<in> set profiles. \<exists>b. IsInUseByProfile e p (name n) = Inr b) \<longrightarrow>
            err = None \<and>
            used = ((\<exists>i \<in> set insts. IsInUseByInstance e i (name n) = Inr True) \<or>
                    (\<exists>p \<in> set profiles. IsInUseByProfile e p (name n) = Inr True))"
      using d Inr res by auto
    have c2: "CallGetProfiles \<notin> set calls"
      using d res by auto
    have c3: "\<not> (\<not> used \<and> err = None)"
      using d res by auto
    have c4: "\<exists>cs c. calls = cs @ [c] \<and> (\<forall>c' \<in> set cs. call_error e c' = None) \<and>
             call_error e c = err"
      using d res Inr
      by (intro exI [of _ "CallLoadFromAllProjects # map ?ci ys"] exI [of _ "?ci x"]) auto
    have c5: "err \<noteq> None \<longrightarrow> \<not> used"
      using d res by auto
        have c2': "CallGetProfiles \<in> set calls \<longrightarrow>
            (\<exists>insts. LoadFromAllProjects e = Inr insts \<and>
               (\<forall>i \<in> set insts. IsInUseByInstance e i (name n) = Inr False))" using c2 by simp
        have c3': "\<not> used \<and> err = None \<longrightarrow>
            (\<exists>insts profiles.
               LoadFromAllProjects e = Inr insts \<and> GetProfiles e = Inr profiles \<and>
               (\<forall>i \<in> set insts. IsInUseByInstance e i (name n) = Inr False) \<and>
               (\<forall>p \<in> set profiles. IsInUseByProfile e p (name n) = Inr False) \<and>
               calls = CallLoadFromAllProjects #
                       map (\<lambda>i. CallIsInUseByInstance i (name n)) insts @
                       CallGetProfiles #
                       map (\<lambda>p. CallIsInUseByProfile p (name n)) profiles)" using c3 by blast
        have c5': "err \<noteq> None \<longrightarrow> \<not> used" using c5 by simp
        from c1 c2' c3' c4 c5' show ?thesis by (intro conjI)
  next
    case None
    with s1 have i: "\<forall>x \<in> set insts. ?fi x = Inr False" "calls1 = map ?ci insts"
      by (simp_all add: scan_None)
    show ?thesis
    proof (cases "GetProfiles e")
      case (Inl er)
      with run Inr s1 None have res: "used = False" "err = Some er"
        "calls = CallLoadFromAllProjects # calls1 @ [CallGetProfiles]"
        by (simp_all add: IsUsed_def)
      have c4: "\<exists>cs c. calls = cs @ [c] \<and> (\<forall>c' \<in> set cs. call_error e c' = None) \<and>
             call_error e c = err"
        using i res Inr Inl
        by (intro exI [of _ "CallLoadFromAllProjects # calls1"] exI [of _ CallGetProfiles]) auto
        have c1: "\<forall>insts profiles.
            LoadFromAllProjects e = Inr insts \<and> GetProfiles e = Inr profiles \<and>
            (\<forall>i \<in> set insts. \<exists>b. IsInUseByInstance e i (name n) = Inr b) \<and>
            (\<forall>p \<in> set profiles. \<exists>b. IsInUseByProfile e p (name n) = Inr b) \<longrightarrow>
            err = None \<and>
            used = ((\<exists>i \<in> set insts. IsInUseByInstance e i (name n) = Inr True) \<or>
                    (\<exists>p \<in> set profiles. IsInUseByProfile e p (name n) = Inr True))" using Inl by simp
        have c2': "CallGetProfiles \<in> set calls \<longrightarrow>
            (\<exists>insts. LoadFromAllProjects e = Inr insts \<and>
               (\<forall>i \<in> set insts. IsInUseByInstance e i (name n) = Inr False))" using Inr i by simp
        have c3': "\<not> used \<and> err = None \<longrightarrow>
            (\<exists>insts profiles.
               LoadFromAllProjects e = Inr insts \<and> GetProfiles e = Inr profiles \<and>
               (\<forall>i \<in> set insts. IsInUseByInstance e i (name n) = Inr False) \<and>
               (\<forall>p \<in> set profiles. IsInUseByProfile e p (name n) = Inr False) \<and>
               calls = CallLoadFromAllProjects #
                       map (\<lambda>i. CallIsInUseByInstance i (name n)) insts @
                       CallGetProfiles #
                       map (\<lambda>p. CallIsInUseByProfile p (name n)) profiles)" using res by simp
        have c5': "err \<noteq> None \<longrightarrow> \<not> used" using res by simp
        from c1 c2' c3' c4 c5' show ?thesis by (intro conjI)
    next
      case profs: (Inr profiles)
      obtain r2 calls2 where s2: "scan ?fp ?cp profiles = (r2, calls2)"
        by (cases "scan ?fp ?cp profiles")
      show ?thesis
      proof (cases r2)
        case (Some r)
        obtain b er where r: "r = (b, er)" by (cases r)
        from run Inr s1 None profs s2 Some r have res: "used = b" "err = er"
          "calls = CallLoadFromAllProjects # calls1 @ CallGetProfiles # calls2"
          by (simp_all add: IsUsed_def)
        from scan_Some [of ?fp ?cp profiles b er calls2] s2 Some r obtain ys x zs where
          d: "profiles = ys @ x # zs" "\<forall>y \<in> set ys. ?fp y = Inr False"
            "calls2 = map ?cp ys @ [?cp x]"
            "(?fp x = Inr True \<and> b \<and> er = None) \<or> (\<exists>err. ?fp x = Inl err \<and> \<not> b \<and> er = Some err)"
          by auto
        have c1: "\<forall>insts profiles.
            LoadFromAllProjects e = Inr insts \<and> GetProfiles e = Inr profiles \<and>
            (\<forall>i \<in> set insts. \<exists>b. IsInUseByInstance e i (name n) = Inr b) \<and>
            (\<forall>p \<in> set profiles. \<exists>b. IsInUseByProfile e p (name n) = Inr b) \<longrightarrow>
            err = None \<and>
            used = ((\<exists>i \<in> set insts. IsInUseByInstance e i (name n) = Inr True) \<or>
                    (\<exists>p \<in> set profiles. IsInUseByProfile e p (name n) = Inr True))"
          using d Inr profs res i by auto
        have c2: "\<exists>insts. LoadFromAllProjects e = Inr insts \<and>
               (\<forall>i \<in> set insts. IsInUseByInstance e i (name n) = Inr False)"
          using Inr i by simp
        have c3: "\<not> (\<not> used \<and> err = None)"
          using d res by auto
        have c4: "\<exists>cs c. calls = cs @ [c] \<and> (\<forall>c' \<in> set cs. call_error e c' = None) \<and>
             call_error e c = err"
          using d res Inr profs i
          by (intro exI [of _ "CallLoadFromAllProjects # calls1 @ CallGetProfiles # map ?cp ys"]
                exI [of _ "?cp x"]) auto
        have c5: "err \<noteq> None \<longrightarrow> \<not> used"
          using d res by auto
        have c2': "CallGetProfiles \<in> set calls \<longrightarrow>
            (\<exists>insts. LoadFromAllProjects e = Inr insts \<and>
               (\<forall>i \<in> set insts. IsInUseByInstance e i (name n) = Inr False))" using c2 by simp
        have c3': "\<not> used \<and> err = None \<longrightarrow>
            (\<exists>insts profiles.
               LoadFromAllProjects e = Inr insts \<and> GetProfiles e = Inr profiles \<and>
               (\<forall>i \<in> set insts. IsInUseByInstance e i (name n) = Inr False) \<and>
               (\<forall>p \<in> set profiles. IsInUseByProfile e p (name n) = Inr False) \<and>
               calls = CallLoadFromAllProjects #
                       map (\<lambda>i. CallIsInUseByInstance i (name n)) insts @
                       CallGetProfiles #
                       map (\<lambda>p. CallIsInUseByProfile p (name n)) profiles)" using c3 by blast
        have c5': "err \<noteq> None \<longrightarrow> \<not> used" using c5 by simp
        from c1 c2' c3' c4 c5' show ?thesis by (intro conjI)
      next
        case None2: None
        with s2 have p: "\<forall>x \<in> set profiles. ?fp x = Inr False" "calls2 = map ?cp profiles"
          by (simp_all add: scan_None)
        from run Inr s1 None profs s2 None2 have res: "used = False" "err = None"
          "calls = CallLoadFromAllProjects # calls1 @ CallGetProfiles # calls2"
          by (simp_all add: IsUsed_def)
        have c1: "\<forall>insts profiles.
            LoadFromAllProjects e = Inr insts \<and> GetProfiles e = Inr profiles \<and>
            (\<forall>i \<in> set insts. \<exists>b. IsInUseByInstance e i (name n) = Inr b) \<and>
            (\<forall>p \<in> set profiles. \<exists>b. IsInUseByProfile e p (name n) = Inr b) \<longrightarrow>
            err = None \<and>
            used = ((\<exists>i \<in> set insts. IsInUseByInstance e i (name n) = Inr True) \<or>
                    (\<exists>p \<in> set profiles. IsInUseByProfile e p (name n) = Inr True))"
          using Inr profs res i p by auto
        have c2: "\<exists>insts. LoadFromAllProjects e = Inr insts \<and>
               (\<forall>i \<in> set insts. IsInUseByInstance e i (name n) = Inr False)"
          using Inr i by simp
        have c3: "\<exists>insts profiles.
               LoadFromAllProjects e = Inr insts \<and> GetProfiles e = Inr profiles \<and>
               (\<forall>i \<in> set insts. IsInUseByInstance e i (name n) = Inr False) \<and>
               (\<forall>p \<in> set profiles. IsInUseByProfile e p (name n) = Inr False) \<and>
               calls = CallLoadFromAllProjects #
                       map (\<lambda>i. CallIsInUseByInstance i (name n)) insts @
                       CallGetProfiles #
                       map (\<lambda>p. CallIsInUseByProfile p (name n)) profiles"
          using Inr profs res i p by simp
        have c4: "\<exists>cs c. calls = cs @ [c] \<and> (\<forall>c' \<in> set cs. call_error e c' = None) \<and>
             call_error e c = err"
        proof (cases profiles rule: rev_cases)
          case Nil
          with res Inr profs i p show ?thesis
            by (intro exI [of _ "CallLoadFromAllProjects # calls1"] exI [of _ CallGetProfiles]) auto
        next
          case (snoc ps q)
          with res Inr profs i p show ?thesis
            by (intro exI [of _ "CallLoadFromAllProjects # calls1 @ CallGetProfiles # map ?cp ps"]
                  exI [of _ "?cp q"]) auto
        qed
        have c2': "CallGetProfiles \<in> set calls \<longrightarrow>
            (\<exists>insts. LoadFromAllProjects e = Inr insts \<and>
               (\<forall>i \<in> set insts. IsInUseByInstance e i (name n) = Inr False))" using c2 by simp
        have c3': "\<not> used \<and> err = None \<longrightarrow>
            (\<exists>insts profiles.
               LoadFromAllProjects e = Inr insts \<and> GetProfiles e = Inr profiles \<and>
               (\<forall>i \<in> set insts. IsInUseByInstance e i (name n) = Inr False) \<and>
               (\<forall>p \<in> set profiles. IsInUseByProfile e p (name n) = Inr False) \<and>
               calls = CallLoadFromAllProjects #
                       map (\<lambda>i. CallIsInUseByInstance i (name n)) insts @
                       CallGetProfiles #
                       map (\<lambda>p. CallIsInUseByProfile p (name n)) profiles)" using c3 by blast
        have c5': "err \<noteq> None \<longrightarrow> \<not> used" using res by simp
        from c1 c2' c3' c4 c5' show ?thesis by (intro conjI)
      qed
    qed
  qed
qed


theorem IsUsed_spec_witness:
  "(let e0 = \<lparr>LoadFromAllProjects = Inr [''c1'', ''c2''],
              IsInUseByInstance = (\<lambda>inst nm. Inr False),
              GetProfiles = Inr [''default''],
              IsInUseByProfile = (\<lambda>profile nm. Inr (profile = ''default'' \<and> nm = ''lxdbr0''))\<rparr>;
        n0 = \<lparr>logger = [(''driver'', ''bridge''), (''network'', ''lxdbr0'')], state = 0,
              id' = 1, name = ''lxdbr0'', netType = ''bridge'', description = [],
              config = None, status = ''Created''\<rparr>
    in IsUsed e0 n0 =
         ((True, None),
          [CallLoadFromAllProjects, CallIsInUseByInstance ''c1'' ''lxdbr0'',
           CallIsInUseByInstance ''c2'' ''lxdbr0'', CallGetProfiles,
           CallIsInUseByProfile ''default'' ''lxdbr0''])
     \<and> True = ((\<exists>i \<in> set [''c1'', ''c2'']. IsInUseByInstance e0 i (name n0) = Inr True) \<or>
               (\<exists>p \<in> set [''default'']. IsInUseByProfile e0 p (name n0) = Inr True))
     \<and> IsInUseByInstance e0 ''c1'' (name n0) = Inr False
     \<and> IsInUseByInstance e0 ''c2'' (name n0) = Inr False)"
proof -
  let ?e0 = "\<lparr>LoadFromAllProjects = Inr [''c1'', ''c2''],
              IsInUseByInstance = (\<lambda>inst nm. Inr False),
              GetProfiles = Inr [''default''],
              IsInUseByProfile = (\<lambda>profile nm. Inr (profile = ''default'' \<and> nm = ''lxdbr0''))\<rparr>
             :: (string, string) usage_env"
  let ?n0 = "\<lparr>logger = [(''driver'', ''bridge''), (''network'', ''lxdbr0'')], state = 0,
              id' = 1, name = ''lxdbr0'', netType = ''bridge'', description = [],
              config = None, status = ''Created''\<rparr>"
  let ?calls = "[CallLoadFromAllProjects, CallIsInUseByInstance ''c1'' ''lxdbr0'',
           CallIsInUseByInstance ''c2'' ''lxdbr0'', CallGetProfiles,
           CallIsInUseByProfile ''default'' ''lxdbr0''] :: (string, string) usage_call list"
  have run: "IsUsed ?e0 ?n0 = ((True, None), ?calls)"
    by (simp add: IsUsed_def)
  have succeed: "LoadFromAllProjects ?e0 = Inr [''c1'', ''c2''] \<and> GetProfiles ?e0 = Inr [''default''] \<and>
      (\<forall>i \<in> set [''c1'', ''c2'']. \<exists>b. IsInUseByInstance ?e0 i (name ?n0) = Inr b) \<and>
      (\<forall>p \<in> set [''default'']. \<exists>b. IsInUseByProfile ?e0 p (name ?n0) = Inr b)"
    by auto
  note all_succeed = IsUsed_spec [OF run, THEN conjunct1, rule_format, OF succeed]
  note profiles_asked = IsUsed_spec [OF run, THEN conjunct2, THEN conjunct1]
  from all_succeed profiles_asked
  have "True = ((\<exists>i \<in> set [''c1'', ''c2'']. IsInUseByInstance ?e0 i (name ?n0) = Inr True) \<or>
               (\<exists>p \<in> set [''default'']. IsInUseByProfile ?e0 p (name ?n0) = Inr True))"
    and "IsInUseByInstance ?e0 ''c1'' (name ?n0) = Inr False"
    and "IsInUseByInstance ?e0 ''c2'' (name ?n0) = Inr False"
    by simp_all
  with run show ?thesis unfolding Let_def by (intro conjI)
qed

section \<open>Properties of rename\<close>





section \<open>Properties of configChanged\<close>

lemma index_wf: "wf_map m \<Longrightarrow> (k, v) \<in> set m \<Longrightarrow> index m k = v"
  by (simp add: wf_map_def index_def)

lemma index_absent: "k \<notin> fst ` set m \<Longrightarrow> index m k = []"
  by (simp add: index_def map_of_eq_None_iff [THEN iffD2])

lemma diff_keys_fst:
  "fst (diff_keys kvs other (b, cks)) = (b \<or> (\<exists>(k, v) \<in> set kvs. v \<noteq> index other k))"
  by (induction kvs other "(b, cks)" arbitrary: b cks rule: diff_keys.induct) auto

lemma diff_keys_set:
  "set (snd (diff_keys kvs other (b, cks))) =
     set cks \<union> {k. \<not> HasPrefix k ''user.'' \<and> (\<exists>v. (k, v) \<in> set kvs \<and> v \<noteq> index other k)}"
  by (induction kvs other "(b, cks)" arbitrary: b cks rule: diff_keys.induct)
     (auto simp: StringInSlice_def)

lemma diff_keys_distinct:
  "distinct cks \<Longrightarrow> distinct (snd (diff_keys kvs other (b, cks)))"
  by (induction kvs other "(b, cks)" arbitrary: b cks rule: diff_keys.induct)
     (auto simp: StringInSlice_def)

lemma differ_key_iff:
  assumes "wf_map old" "wf_map new"
  shows "((\<exists>v. (k, v) \<in> set old \<and> v \<noteq> index new k) \<or> (\<exists>v. (k, v) \<in> set new \<and> v \<noteq> index old k)) =
         (index old k \<noteq> index new k)"
proof
  assume "(\<exists>v. (k, v) \<in> set old \<and> v \<noteq> index new k) \<or> (\<exists>v. (k, v) \<in> set new \<and> v \<noteq> index old k)"
  then show "index old k \<noteq> index new k"
  proof
    assume "\<exists>v. (k, v) \<in> set old \<and> v \<noteq> index new k"
    then obtain v where v: "(k, v) \<in> set old" "v \<noteq> index new k" by blast
    from index_wf [OF assms(1) v(1)] v(2) show ?thesis by simp
  next
    assume "\<exists>v. (k, v) \<in> set new \<and> v \<noteq> index old k"
    then obtain v where v: "(k, v) \<in> set new" "v \<noteq> index old k" by blast
    from index_wf [OF assms(2) v(1)] v(2) show ?thesis by simp
  qed
next
  assume k: "index old k \<noteq> index new k"
  have "k \<in> fst ` set old \<or> k \<in> fst ` set new"
  proof (rule ccontr)
    assume "\<not> (k \<in> fst ` set old \<or> k \<in> fst ` set new)"
    then have "index old k = []" "index new k = []" by (simp_all add: index_absent)
    with k show False by simp
  qed
  then show "(\<exists>v. (k, v) \<in> set old \<and> v \<noteq> index new k) \<or> (\<exists>v. (k, v) \<in> set new \<and> v \<noteq> index old k)"
  proof
    assume "k \<in> fst ` set old"
    then obtain v where v: "(k, v) \<in> set old" by auto
    from index_wf [OF assms(1) v] k have "v \<noteq> index new k" by simp
    with v show ?thesis by blast
  next
    assume "k \<in> fst ` set new"
    then obtain v where v: "(k, v) \<in> set new" by auto
    from index_wf [OF assms(2) v] k have "v \<noteq> index old k" by simp
    with v show ?thesis by blast
  qed
qed

lemma differ_iff:
  assumes "wf_map old" "wf_map new"
  shows "((\<exists>(k, v) \<in> set old. v \<noteq> index new k) \<or> (\<exists>(k, v) \<in> set new. v \<noteq> index old k)) =
         (\<exists>k. index old k \<noteq> index new k)"
proof -
  have "((\<exists>(k, v) \<in> set old. v \<noteq> index new k) \<or> (\<exists>(k, v) \<in> set new. v \<noteq> index old k)) =
        (\<exists>k. (\<exists>v. (k, v) \<in> set old \<and> v \<noteq> index new k) \<or> (\<exists>v. (k, v) \<in> set new \<and> v \<noteq> index old k))"
    by auto
  also have "\<dots> = (\<exists>k. index old k \<noteq> index new k)"
    by (simp only: differ_key_iff [OF assms])
  finally show ?thesis .
qed

lemma differ_keys_iff:
  assumes "wf_map old" "wf_map new"
  shows "{k. \<not> HasPrefix k ''user.'' \<and> (\<exists>v. (k, v) \<in> set old \<and> v \<noteq> index new k)} \<union>
         {k. \<not> HasPrefix k ''user.'' \<and> (\<exists>v. (k, v) \<in> set new \<and> v \<noteq> index old k)} =
         {k. \<not> HasPrefix k ''user.'' \<and> index old k \<noteq> index new k}"
proof -
  have "{k. \<not> HasPrefix k ''user.'' \<and> (\<exists>v. (k, v) \<in> set old \<and> v \<noteq> index new k)} \<union>
         {k. \<not> HasPrefix k ''user.'' \<and> (\<exists>v. (k, v) \<in> set new \<and> v \<noteq> index old k)} =
        {k. \<not> HasPrefix k ''user.'' \<and>
            ((\<exists>v. (k, v) \<in> set old \<and> v \<noteq> index new k) \<or> (\<exists>v. (k, v) \<in> set new \<and> v \<noteq> index old k))}"
    by blast
  also have "\<dots> = {k. \<not> HasPrefix k ''user.'' \<and> index old k \<noteq> index new k}"
    by (simp only: differ_key_iff [OF assms])
  finally show ?thesis .
qed

lemma configChanged_unfold:
  assumes "ref_ok h (config n)" "ref_ok h (Config newNetwork)"
  shows "configChanged None h n newNetwork =
     ((fst (diff_keys (deref h (Config newNetwork)) (deref h (config n))
              (diff_keys (deref h (config n)) (deref h (Config newNetwork))
                 (Description newNetwork \<noteq> description n, []))),
       snd (diff_keys (deref h (Config newNetwork)) (deref h (config n))
              (diff_keys (deref h (config n)) (deref h (Config newNetwork))
                 (Description newNetwork \<noteq> description n, []))),
       \<lparr>Description = description n, Config = Some (length h)\<rparr>, None),
      h @ [deref h (config n)])"
proof -
  have a: "deref (h @ [[]]) (config n) = deref h (config n)"
    using assms(1) by (rule deref_append)
  have b: "deref (h @ [deref h (config n)]) (Config newNetwork) = deref h (Config newNetwork)"
    using assms(2) by (rule deref_append)
  have c: "deref (h @ [deref h (config n)]) (Some (length h)) = deref h (config n)"
    by (simp add: deref_def)
  show ?thesis
    by (simp add: configChanged_def make_map_def DeepCopy_def Let_def a b c split: prod.splits)
qed

lemma configChanged_success:
  assumes "ref_ok h (config n)" "ref_ok h (Config newNetwork)"
    and "wf_map (deref h (config n))" "wf_map (deref h (Config newNetwork))"
  shows "\<exists>changedKeys.
      configChanged None h n newNetwork =
        ((Description newNetwork \<noteq> description n \<or>
            (\<exists>k. index (deref h (config n)) k \<noteq> index (deref h (Config newNetwork)) k),
          changedKeys, \<lparr>Description = description n, Config = Some (length h)\<rparr>, None),
         h @ [deref h (config n)])
    \<and> distinct changedKeys
    \<and> set changedKeys =
        {k. \<not> HasPrefix k ''user.'' \<and>
            index (deref h (config n)) k \<noteq> index (deref h (Config newNetwork)) k}"
proof -
  let ?old = "deref h (config n)"
  let ?new = "deref h (Config newNetwork)"
  let ?d = "Description newNetwork \<noteq> description n"
  let ?d1 = "diff_keys ?old ?new (?d, [])"
  let ?d2 = "diff_keys ?new ?old ?d1"
  have d1: "?d1 = (fst ?d1, snd ?d1)" by simp
  have f: "fst ?d2 = (?d \<or> (\<exists>k. index ?old k \<noteq> index ?new k))"
    by (subst d1, simp only: diff_keys_fst differ_iff [OF assms(3,4), symmetric]) blast
  have s: "set (snd ?d2) = {k. \<not> HasPrefix k ''user.'' \<and> index ?old k \<noteq> index ?new k}"
    by (subst d1, simp only: diff_keys_set differ_keys_iff [OF assms(3,4), symmetric]) simp
  have "distinct (snd ?d1)" by (rule diff_keys_distinct) simp
  then have di: "distinct (snd ?d2)" by (subst d1) (rule diff_keys_distinct)
  show ?thesis
    unfolding configChanged_unfold [OF assms(1,2)] using f s di by simp
qed

lemma configChanged_failure:
  "configChanged (Some err) h n newNetwork =
     ((False, [], \<lparr>Description = description n, Config = Some (length h)\<rparr>, Some err), h @ [[]])"
  by (simp add: configChanged_def make_map_def DeepCopy_def)


text \<open>
  C8: let configChanged return without error, with changed and changedNonUserKeys, for a
  newSpec, the two tables having distinct keys. Two configs differ at a key when their
  values for it differ, an absent key counting as the empty string. changed is true
  exactly when the descriptions differ or the configs differ at some key;
  changedNonUserKeys lists, without duplicates, exactly the keys not prefixed "user." at
  which the configs differ, whichever table holds the key. So when the only differences
  are at "user."-prefixed keys, changed is true and changedNonUserKeys is empty and
  holds no "user."-prefixed key.
\<close>

theorem configChanged_user_keys:
  assumes ok: "ref_ok h (config n)" "ref_ok h (Config newNetwork)"
    and wf: "wf_map (deref h (config n))" "wf_map (deref h (Config newNetwork))"
    and run: "configChanged failure h n newNetwork =
                ((changed, changedKeys, oldNetwork, None), h')"
  shows "changed = (Description newNetwork \<noteq> description n \<or>
            (\<exists>k. index (deref h (config n)) k \<noteq> index (deref h (Config newNetwork)) k))
       \<and> distinct changedKeys
       \<and> set changedKeys =
            {k. \<not> HasPrefix k ''user.'' \<and>
                index (deref h (config n)) k \<noteq> index (deref h (Config newNetwork)) k}
       \<and> (Description newNetwork = description n \<and>
            (\<exists>k. index (deref h (config n)) k \<noteq> index (deref h (Config newNetwork)) k) \<and>
            (\<forall>k. index (deref h (config n)) k \<noteq> index (deref h (Config newNetwork)) k \<longrightarrow>
                 HasPrefix k ''user.'') \<longrightarrow>
            changed \<and> changedKeys = [] \<and> (\<forall>k \<in> set changedKeys. \<not> HasPrefix k ''user.''))"
proof -
  let ?differ = "\<lambda>k. index (deref h (config n)) k \<noteq> index (deref h (Config newNetwork)) k"
  from configChanged_success [OF ok wf] obtain cks where
    r: "configChanged None h n newNetwork =
        ((Description newNetwork \<noteq> description n \<or> (\<exists>k. ?differ k),
          cks, \<lparr>Description = description n, Config = Some (length h)\<rparr>, None),
         h @ [deref h (config n)])"
    and d0: "distinct cks"
    and s0: "set cks = {k. \<not> HasPrefix k ''user.'' \<and> ?differ k}"
    by blast
  have copied: "failure = None"
  proof (cases failure)
    case None
    then show ?thesis .
  next
    case (Some e)
    with run show ?thesis by (simp add: configChanged_failure)
  qed
  from r run have c: "changed = (Description newNetwork \<noteq> description n \<or> (\<exists>k. ?differ k))"
    and k: "changedKeys = cks"
    unfolding copied by simp_all
  from d0 k have d: "distinct changedKeys" by simp
  from s0 k have s: "set changedKeys = {k. \<not> HasPrefix k ''user.'' \<and> ?differ k}" by simp
  have u: "Description newNetwork = description n \<and> (\<exists>k. ?differ k) \<and>
        (\<forall>k. ?differ k \<longrightarrow> HasPrefix k ''user.'') \<longrightarrow>
        changed \<and> changedKeys = [] \<and> (\<forall>k \<in> set changedKeys. \<not> HasPrefix k ''user.'')"
  proof
    assume a: "Description newNetwork = description n \<and> (\<exists>k. ?differ k) \<and>
        (\<forall>k. ?differ k \<longrightarrow> HasPrefix k ''user.'')"
    from a c have 1: "changed" by simp
    from a have "{k. \<not> HasPrefix k ''user.'' \<and> ?differ k} = {}" by blast
    with s have 2: "changedKeys = []" by simp
    from 1 2 show "changed \<and> changedKeys = [] \<and> (\<forall>k \<in> set changedKeys. \<not> HasPrefix k ''user.'')"
      by simp
  qed
  show ?thesis
    by (rule conjI [OF c conjI [OF d conjI [OF s u]]])
qed

text \<open>
  C9: for every entity state, configChanged called with a newSpec whose description is
  the entity's and whose config is equal to the entity's (the same map or another one
  with the same pairs, in any order) returns changed = false and an empty
  changedNonUserKeys, whether its deep copy succeeds or fails.
\<close>

theorem configChanged_reflexive:
  assumes ok: "ref_ok h (config n)" "ref_ok h (Config newNetwork)"
    and wf: "wf_map (deref h (config n))" "wf_map (deref h (Config newNetwork))"
    and same: "Description newNetwork = description n"
      "map_of (deref h (Config newNetwork)) = map_of (deref h (config n))"
  shows "fst (fst (configChanged failure h n newNetwork)) = False
       \<and> fst (snd (fst (configChanged failure h n newNetwork))) = []"
proof (cases failure)
  case (Some err)
  then show ?thesis by (simp add: configChanged_failure)
next
  case None
  have eq: "index (deref h (config n)) k = index (deref h (Config newNetwork)) k" for k
    using same(2) by (simp add: index_def)
  from configChanged_success [OF ok wf] obtain changedKeys where
    r: "configChanged None h n newNetwork =
        ((Description newNetwork \<noteq> description n \<or>
            (\<exists>k. index (deref h (config n)) k \<noteq> index (deref h (Config newNetwork)) k),
          changedKeys, \<lparr>Description = description n, Config = Some (length h)\<rparr>, None),
         h @ [deref h (config n)])"
    and s: "set changedKeys =
        {k. \<not> HasPrefix k ''user.'' \<and>
            index (deref h (config n)) k \<noteq> index (deref h (Config newNetwork)) k}"
    by blast
  from s eq have "changedKeys = []" by simp
  with r same(1) eq None show ?thesis by simp
qed


theorem configChanged_user_keys_witness:
  "(let h0 = [[(''ipv4.nat'', ''true''), (''user.note'', ''a'')],
              [(''user.note'', ''b''), (''ipv4.nat'', ''true''), (''user.extra'', ''x'')]];
        n0 = \<lparr>logger = [(''driver'', ''bridge''), (''network'', ''a'')], state = 0,
              id' = 1, name = ''a'', netType = ''bridge'', description = ''lan'',
              config = Some 0, status = ''Created''\<rparr>;
        put0 = \<lparr>Description = ''lan'', Config = Some 1\<rparr>
    in ref_ok h0 (config n0) \<and> ref_ok h0 (Config put0)
     \<and> wf_map (deref h0 (config n0)) \<and> wf_map (deref h0 (Config put0))
     \<and> configChanged None h0 n0 put0 =
         ((True, [], \<lparr>Description = ''lan'', Config = Some 2\<rparr>, None),
          h0 @ [[(''ipv4.nat'', ''true''), (''user.note'', ''a'')]])
     \<and> index (deref h0 (config n0)) ''user.note'' \<noteq> index (deref h0 (Config put0)) ''user.note''
     \<and> {k. \<not> HasPrefix k ''user.'' \<and>
            index (deref h0 (config n0)) k \<noteq> index (deref h0 (Config put0)) k} = {})"
proof -
  let ?h0 = "[[(''ipv4.nat'', ''true''), (''user.note'', ''a'')],
              [(''user.note'', ''b''), (''ipv4.nat'', ''true''), (''user.extra'', ''x'')]]"
  let ?n0 = "\<lparr>logger = [(''driver'', ''bridge''), (''network'', ''a'')], state = 0,
              id' = 1, name = ''a'', netType = ''bridge'', description = ''lan'',
              config = Some 0, status = ''Created''\<rparr>"
  let ?put0 = "\<lparr>Description = ''lan'', Config = Some 1\<rparr>"
  have ok: "ref_ok ?h0 (config ?n0)" "ref_ok ?h0 (Config ?put0)"
    by (simp_all add: ref_ok_def)
  have wf: "wf_map (deref ?h0 (config ?n0))" "wf_map (deref ?h0 (Config ?put0))"
    by (simp_all add: wf_map_def deref_def)
  have run: "configChanged None ?h0 ?n0 ?put0 =
         ((True, [], \<lparr>Description = ''lan'', Config = Some 2\<rparr>, None),
          ?h0 @ [[(''ipv4.nat'', ''true''), (''user.note'', ''a'')]])"
    by (simp add: configChanged_def make_map_def DeepCopy_def deref_def index_def
        HasPrefix_def StringInSlice_def Let_def)
  have differ: "index (deref ?h0 (config ?n0)) ''user.note'' \<noteq>
      index (deref ?h0 (Config ?put0)) ''user.note''"
    by (simp add: deref_def index_def)
  from configChanged_user_keys [OF ok wf run]
  have "set [] = {k. \<not> HasPrefix k ''user.'' \<and>
            index (deref ?h0 (config ?n0)) k \<noteq> index (deref ?h0 (Config ?put0)) k}"
    by (elim conjE)
  then have "{k. \<not> HasPrefix k ''user.'' \<and>
            index (deref ?h0 (config ?n0)) k \<noteq> index (deref ?h0 (Config ?put0)) k} = {}"
    by simp
  with ok wf run differ show ?thesis unfolding Let_def by (intro conjI)
qed

theorem configChanged_reflexive_witness:
  "(let h0 = [[(''ipv4.nat'', ''true''), (''user.note'', ''a'')],
              [(''user.note'', ''a''), (''ipv4.nat'', ''true'')]];
        n0 = \<lparr>logger = [(''driver'', ''bridge''), (''network'', ''a'')], state = 0,
              id' = 1, name = ''a'', netType = ''bridge'', description = ''lan'',
              config = Some 0, status = ''Created''\<rparr>;
        put0 = \<lparr>Description = ''lan'', Config = Some 1\<rparr>
    in ref_ok h0 (config n0) \<and> ref_ok h0 (Config put0)
     \<and> wf_map (deref h0 (config n0)) \<and> wf_map (deref h0 (Config put0))
     \<and> Description put0 = description n0
     \<and> map_of (deref h0 (Config put0)) = map_of (deref h0 (config n0))
     \<and> fst (fst (configChanged None h0 n0 put0)) = False
     \<and> fst (snd (fst (configChanged None h0 n0 put0))) = [])"
proof -
  let ?h0 = "[[(''ipv4.nat'', ''true''), (''user.note'', ''a'')],
              [(''user.note'', ''a''), (''ipv4.nat'', ''true'')]]"
  let ?n0 = "\<lparr>logger = [(''driver'', ''bridge''), (''network'', ''a'')], state = 0,
              id' = 1, name = ''a'', netType = ''bridge'', description = ''lan'',
              config = Some 0, status = ''Created''\<rparr>"
  let ?put0 = "\<lparr>Description = ''lan'', Config = Some 1\<rparr>"
  have ok: "ref_ok ?h0 (config ?n0)" "ref_ok ?h0 (Config ?put0)"
    by (simp_all add: ref_ok_def)
  have wf: "wf_map (deref ?h0 (config ?n0))" "wf_map (deref ?h0 (Config ?put0))"
    by (simp_all add: wf_map_def deref_def)
  have same: "Description ?put0 = description ?n0"
    "map_of (deref ?h0 (Config ?put0)) = map_of (deref ?h0 (config ?n0))"
    by (auto simp: deref_def fun_eq_iff)
  from configChanged_reflexive [OF ok wf same, of None]
  have "fst (fst (configChanged None ?h0 ?n0 ?put0)) = False"
    and "fst (snd (fst (configChanged None ?h0 ?n0 ?put0))) = []"
    by simp_all
  with ok wf same show ?thesis unfolding Let_def by (intro conjI)
qed

end
